theory Spec2Isabelle
  imports Complex_Main
begin

section \<open>Data model of server/gameState.js\<close>

text \<open>
  The rules engine is the class \<open>GameStateManager\<close> of \<^verbatim>\<open>server/gameState.js\<close>; the
  message handlers that call it are in \<^verbatim>\<open>server/index.js\<close>. Mutation of \<open>this.state\<close>
  is modelled by explicit state passing. A thrown \<open>Error\<close> is a value of type \<open>error\<close>;
  every \<open>throw\<close> of the source stands before the first mutation of its operation, so an
  error result means that the state is the one before the call. A loop that the source
  does not bound is a \<^theory_text>\<open>partial_function\<close> in the option monad: \<open>None\<close> is a call that
  never returns.

  JavaScript numbers that hold coordinates are modelled as rationals. Every finite
  double is a rational and the comparisons of the source are exact. Sums and
  differences are exact in the model; in the source they are exact on the integers
  below \<open>2^53\<close> and on the halves used in the examples, and round to the nearest
  double on other fractions. The statements below that depend on a value of
  \<open>distance\<close>, of \<open>isAdjacent\<close> or of a loop variable are therefore made for
  positions with integer coordinates (\<open>isCell\<close>) or at concrete targets on which
  double arithmetic is exact. Hit points and stocks only ever hold integers and are
  modelled as \<open>int\<close>.
\<close>

definition MAX_PLAYERS :: nat where "MAX_PLAYERS = 4"
definition PLAYER_HP :: int where "PLAYER_HP = 10"
definition OBSTACLE_HP :: int where "OBSTACLE_HP = 2"
definition OBSTACLE_STOCK :: int where "OBSTACLE_STOCK = 3"
definition ATTACK_COST :: int where "ATTACK_COST = 0"
definition ATTACK_DAMAGE :: int where "ATTACK_DAMAGE = 2"
definition MOVE_RANGE :: rat where "MOVE_RANGE = 3"
definition ATTACK_RANGE :: rat where "ATTACK_RANGE = 2"
definition ALLOWED_GRID_SIZES :: "rat list" where "ALLOWED_GRID_SIZES = [9]"

text \<open>
  Identifiers are the strings that \<open>randomUUID()\<close> returns; the operations that create
  an entity take the new identifier as an argument. A JavaScript string is the list of
  its UTF-16 code units.
\<close>

type_synonym ident = string
type_synonym jsstring = "nat list"

datatype gstatus = Lobby | InProgress | Finished

datatype pstatus = Active | Defeated

record pos =
  pos_x :: rat
  pos_y :: rat

record player =
  p_id :: ident
  userId :: "ident option"
  pseudo :: jsstring
  couleur :: jsstring
  pdv :: int
  position :: "pos option"
  obstaclesRestants :: int
  status :: pstatus

record obstacle =
  o_id :: ident
  o_position :: pos
  o_pdv :: int
  ownerId :: ident

record game =
  gameStatus :: gstatus
  gridSize :: rat
  players :: "player list"
  obstacles :: "obstacle list"
  currentPlayerTurn :: "ident option"
  winner :: "jsstring option"
  winnerId :: "ident option"

text \<open>
  One constructor for each message of a thrown \<open>Error\<close> and of an \<open>ACTION_INVALID\<close>
  reply, in the order of the source:
  \<^item> \<open>LobbyFull\<close>: "Le lobby est complet."
  \<^item> \<open>InvalidPseudo\<close>: "Pseudo invalide."
  \<^item> \<open>InvalidColor\<close>: "Couleur invalide."
  \<^item> \<open>MoveNotStraight\<close>: "Le deplacement doit etre en ligne droite."
  \<^item> \<open>MoveTooFar\<close>: "La distance maximale est de 3 cases."
  \<^item> \<open>PathBlocked\<close>: "Trajet bloque par un joueur ou un obstacle."
  \<^item> \<open>AttackNotStraight\<close>: "Attaque en ligne droite uniquement."
  \<^item> \<open>AttackTooFar\<close>: "La portee maximale est de 2 cases."
  \<^item> \<open>NoTarget\<close>: "Aucune cible dans cette direction."
  \<^item> \<open>AttackBlocked\<close>: "Une entite bloque votre attaque."
  \<^item> \<open>NoStock\<close>: "Plus d'obstacles disponibles."
  \<^item> \<open>NotAdjacent\<close>: "La case doit etre adjacente."
  \<^item> \<open>CellOccupied\<close>: "Case deja occupee."
  \<^item> \<open>PlayerNotFound\<close>: "Joueur introuvable."
  \<^item> \<open>PlayerEliminated\<close>: "Joueur deja elimine."
  \<^item> \<open>OutOfBounds\<close>: "Case hors limites."
  \<^item> \<open>PlayerAlreadyJoined\<close>: "Player already joined."
  \<^item> \<open>SpectatorsNotAllowed\<close>: "Spectators are not allowed."
  \<^item> \<open>GameNotInProgress\<close>: "Game must be in progress."
  \<^item> \<open>NotYourTurn\<close>: "Not your turn."
  \<^item> \<open>UnknownAction\<close>: "Unknown action."
  \<^item> \<open>GameNotFinished\<close>: "Game is not finished yet."
  \<^item> \<open>TypeError\<close>: the runtime's error on reading a property of \<open>null\<close> or
    \<open>undefined\<close> (the position of a player that has none).
\<close>

datatype error =
    LobbyFull | InvalidPseudo | InvalidColor
  | MoveNotStraight | MoveTooFar | PathBlocked
  | AttackNotStraight | AttackTooFar | NoTarget | AttackBlocked
  | NoStock | NotAdjacent | CellOccupied
  | PlayerNotFound | PlayerEliminated | OutOfBounds
  | PlayerAlreadyJoined | SpectatorsNotAllowed | GameNotInProgress | NotYourTurn
  | UnknownAction | GameNotFinished
  | TypeError

text \<open>
  A property \<open>x\<close> or \<open>y\<close> of a target that came out of \<open>JSON.parse\<close>: a finite number,
  an infinite one (a literal such as \<open>1e999\<close>), or a value whose \<open>typeof\<close> is not
  \<open>"number"\<close> (also a missing property). \<open>JSON.parse\<close> never yields \<open>NaN\<close>. The target
  itself is \<open>None\<close> when it is falsy (\<open>undefined\<close>, \<open>null\<close>).
\<close>

datatype jsval = JNum rat | JInfinite | JNotNumber

type_synonym rawTarget = "(jsval \<times> jsval) option"

section \<open>Array helpers\<close>

text \<open>
  \<open>Array.prototype.findIndex\<close>; \<open>None\<close> stands for the result \<open>-1\<close>. An object that
  \<open>find\<close> returns is a reference into the array, which the model keeps as the index.
\<close>

fun findIndex :: "('a \<Rightarrow> bool) \<Rightarrow> 'a list \<Rightarrow> nat option" where
  "findIndex P [] = None"
| "findIndex P (x # xs) = (if P x then Some 0 else map_option Suc (findIndex P xs))"

text \<open>The same for a predicate that can throw: the first throw ends the search.\<close>

fun findIndexE :: "('a \<Rightarrow> error + bool) \<Rightarrow> 'a list \<Rightarrow> error + nat option" where
  "findIndexE f [] = Inr None"
| "findIndexE f (x # xs) =
     (case f x of
        Inl e \<Rightarrow> Inl e
      | Inr True \<Rightarrow> Inr (Some 0)
      | Inr False \<Rightarrow>
          (case findIndexE f xs of Inl e \<Rightarrow> Inl e | Inr r \<Rightarrow> Inr (map_option Suc r)))"

section \<open>Store creation and spatial queries\<close>

definition createInitialState :: "rat \<Rightarrow> game" where
  "createInitialState gsize =
     \<lparr> gameStatus = Lobby, gridSize = gsize, players = [], obstacles = [],
       currentPlayerTurn = None, winner = None, winnerId = None \<rparr>"

definition requireActivePlayer :: "game \<Rightarrow> ident \<Rightarrow> error + nat" where
  "requireActivePlayer st playerId =
     (case findIndex (\<lambda>p. p_id p = playerId) (players st) of
        None \<Rightarrow> Inl PlayerNotFound
      | Some i \<Rightarrow>
          if status (players st ! i) \<noteq> Active then Inl PlayerEliminated else Inr i)"

definition ensureTargetValid :: "game \<Rightarrow> rawTarget \<Rightarrow> error + pos" where
  "ensureTargetValid st target =
     (case target of
        None \<Rightarrow> Inl OutOfBounds
      | Some (JNum a, JNum b) \<Rightarrow>
          if a < 0 \<or> a \<ge> gridSize st \<or> b < 0 \<or> b \<ge> gridSize st
          then Inl OutOfBounds
          else Inr \<lparr> pos_x = a, pos_y = b \<rparr>
      | Some _ \<Rightarrow> Inl OutOfBounds)"

text \<open>
  The predicate of \<open>getPlayerAt\<close>: \<open>p.status === "Active" && p.position.x === ...\<close>.
  The conjunction reads the position only of an Active player, and throws when that
  position is \<open>null\<close>.
\<close>

definition playerAtPred :: "pos \<Rightarrow> player \<Rightarrow> error + bool" where
  "playerAtPred c p =
     (if status p = Active
      then (case position p of
              None \<Rightarrow> Inl TypeError
            | Some q \<Rightarrow> Inr (pos_x q = pos_x c \<and> pos_y q = pos_y c))
      else Inr False)"

definition getPlayerAt :: "game \<Rightarrow> pos \<Rightarrow> error + nat option" where
  "getPlayerAt st c = findIndexE (playerAtPred c) (players st)"

definition getObstacleAt :: "game \<Rightarrow> pos \<Rightarrow> nat option" where
  "getObstacleAt st c =
     findIndex (\<lambda>ob. pos_x (o_position ob) = pos_x c \<and> pos_y (o_position ob) = pos_y c)
       (obstacles st)"

definition isOccupied :: "game \<Rightarrow> pos \<Rightarrow> error + bool" where
  "isOccupied st c =
     (case getPlayerAt st c of
        Inl e \<Rightarrow> Inl e
      | Inr (Some i) \<Rightarrow> Inr True
      | Inr None \<Rightarrow> Inr (getObstacleAt st c \<noteq> None))"

definition isStraightLine :: "pos \<Rightarrow> pos \<Rightarrow> bool" where
  "isStraightLine a b = (pos_x a = pos_x b \<or> pos_y a = pos_y b)"

text \<open>
  \<open>Math.abs(a.x - b.x) + Math.abs(a.y - b.y)\<close>, computed exactly. The source computes
  it in doubles: the two agree when the coordinates are integers, and can differ by a
  rounding when one of them is a fraction that is not a small multiple of a power of
  two.
\<close>

definition distance :: "pos \<Rightarrow> pos \<Rightarrow> rat" where
  "distance a b = \<bar>pos_x a - pos_x b\<bar> + \<bar>pos_y a - pos_y b\<bar>"

definition Math_sign :: "rat \<Rightarrow> rat" where
  "Math_sign r = (if r > 0 then 1 else if r < 0 then - 1 else 0)"

text \<open>
  The \<open>while\<close> loop of \<open>isPathClear\<close>, with the loop variables \<open>x\<close> and \<open>y\<close> as
  arguments. Its only exits are an occupied cell and the target's cell itself.
  \<open>blocked\<close> is the \<open>return false\<close> / \<open>return true\<close> on the result of \<open>isOccupied\<close>.
\<close>

definition blocked :: "error + bool \<Rightarrow> error + bool" where
  "blocked r = (case r of Inl e \<Rightarrow> Inl e | Inr occupied \<Rightarrow> Inr (\<not> occupied))"

partial_function (option) isPathClear_loop ::
  "game \<Rightarrow> rat \<Rightarrow> rat \<Rightarrow> pos \<Rightarrow> rat \<Rightarrow> rat \<Rightarrow> (error + bool) option" where
  "isPathClear_loop st dx dy target x y =
     (if x \<noteq> pos_x target \<or> y \<noteq> pos_y target
      then (if isOccupied st \<lparr> pos_x = x, pos_y = y \<rparr> = Inr False
            then isPathClear_loop st dx dy target (x + dx) (y + dy)
            else Some (blocked (isOccupied st \<lparr> pos_x = x, pos_y = y \<rparr>)))
      else Some (blocked (isOccupied st target)))"

declare isPathClear_loop.simps [code]

definition isPathClear :: "game \<Rightarrow> pos \<Rightarrow> pos \<Rightarrow> (error + bool) option" where
  "isPathClear st start target =
     (let dx = Math_sign (pos_x target - pos_x start);
          dy = Math_sign (pos_y target - pos_y start)
      in isPathClear_loop st dx dy target (pos_x start + dx) (pos_y start + dy))"

text \<open>
  The value \<open>{ type, entity }\<close> of \<open>findFirstEntity\<close>: the entity is a reference into
  \<open>state.players\<close> or \<open>state.obstacles\<close>, kept as its index.
\<close>

datatype hit = HitPlayer nat | HitObstacle nat

definition playerHit :: "error + nat option \<Rightarrow> error + hit option" where
  "playerHit r = (case r of Inl e \<Rightarrow> Inl e | Inr i \<Rightarrow> Inr (map_option HitPlayer i))"

partial_function (option) findFirstEntity_loop ::
  "game \<Rightarrow> pos \<Rightarrow> pos \<Rightarrow> rat \<Rightarrow> rat \<Rightarrow> rat \<Rightarrow> rat \<Rightarrow> (error + hit option) option" where
  "findFirstEntity_loop st start target dx dy x y =
     (if x \<ge> 0 \<and> y \<ge> 0 \<and> x < gridSize st \<and> y < gridSize st
          \<and> \<bar>x - pos_x start\<bar> + \<bar>y - pos_y start\<bar> \<le> ATTACK_RANGE
      then (if getPlayerAt st \<lparr> pos_x = x, pos_y = y \<rparr> \<noteq> Inr None
            then Some (playerHit (getPlayerAt st \<lparr> pos_x = x, pos_y = y \<rparr>))
            else if getObstacleAt st \<lparr> pos_x = x, pos_y = y \<rparr> \<noteq> None
            then Some (Inr (map_option HitObstacle (getObstacleAt st \<lparr> pos_x = x, pos_y = y \<rparr>)))
            else if x = pos_x target \<and> y = pos_y target
            then Some (Inr None)
            else findFirstEntity_loop st start target dx dy (x + dx) (y + dy))
      else Some (Inr None))"

declare findFirstEntity_loop.simps [code]

definition findFirstEntity :: "game \<Rightarrow> pos \<Rightarrow> pos \<Rightarrow> (error + hit option) option" where
  "findFirstEntity st start target =
     (let dx = Math_sign (pos_x target - pos_x start);
          dy = Math_sign (pos_y target - pos_y start)
      in findFirstEntity_loop st start target dx dy (pos_x start + dx) (pos_y start + dy))"

text \<open>
  The differences of \<open>isAdjacent\<close> are exact here as well, and agree with the doubles
  of the source on integer coordinates.
\<close>

definition isAdjacent :: "pos \<Rightarrow> pos \<Rightarrow> bool" where
  "isAdjacent a b =
     (\<bar>pos_x a - pos_x b\<bar> \<le> 1 \<and> \<bar>pos_y a - pos_y b\<bar> \<le> 1
      \<and> \<not> (pos_x a = pos_x b \<and> pos_y a = pos_y b))"

definition getStartingPositions :: "game \<Rightarrow> pos list" where
  "getStartingPositions st =
     (let m = gridSize st - 1
      in [\<lparr> pos_x = 0, pos_y = 0 \<rparr>, \<lparr> pos_x = m, pos_y = 0 \<rparr>,
          \<lparr> pos_x = 0, pos_y = m \<rparr>, \<lparr> pos_x = m, pos_y = m \<rparr>])"

text \<open>Reading an array past its end gives \<open>undefined\<close>: no position.\<close>

definition startingPositionAt :: "game \<Rightarrow> nat \<Rightarrow> pos option" where
  "startingPositionAt st idx =
     (if idx < length (getStartingPositions st)
      then Some (getStartingPositions st ! idx) else None)"

section \<open>Turn and lifecycle controller\<close>

definition markPlayerDefeated :: "game \<Rightarrow> ident \<Rightarrow> game" where
  "markPlayerDefeated st playerId =
     (case findIndex (\<lambda>p. p_id p = playerId) (players st) of
        None \<Rightarrow> st
      | Some i \<Rightarrow>
          if status (players st ! i) = Defeated then st
          else st \<lparr> players :=
                 (players st)[i := (players st ! i) \<lparr> status := Defeated, position := None \<rparr>] \<rparr>)"

definition checkVictory :: "game \<Rightarrow> game" where
  "checkVictory st =
     (let active = filter (\<lambda>p. status p = Active) (players st)
      in if length active = 1 \<and> gameStatus st = InProgress
         then st \<lparr> gameStatus := Finished,
                   winner := Some (pseudo (active ! 0)),
                   winnerId := Some (p_id (active ! 0)) \<rparr>
         else if length active = 0 \<and> gameStatus st = InProgress
         then st \<lparr> gameStatus := Finished, winner := None, winnerId := None \<rparr>
         else st)"

text \<open>
  \<open>forEach\<close> visits the players in order. \<open>markPlayerDefeated\<close> changes neither the
  \<open>pdv\<close> nor the \<open>id\<close> of a player nor the length of the array, so the fold over the
  list as it is on entry reads the same values as the loop over the live array.
\<close>

definition cleanupAfterAction :: "game \<Rightarrow> game" where
  "cleanupAfterAction st =
     (let st1 = st \<lparr> obstacles := filter (\<lambda>ob. o_pdv ob > 0) (obstacles st) \<rparr>;
          st2 = fold (\<lambda>p s. if pdv p \<le> 0 then markPlayerDefeated s (p_id p) else s)
                  (players st1) st1
      in checkVictory st2)"

text \<open>
  The \<open>for\<close> loop of \<open>advanceTurn\<close>: \<open>k\<close> iterations are left, \<open>nextIndex\<close> is the
  loop variable, which starts at \<open>currentIndex\<close> (\<open>-1\<close> when \<open>findIndex\<close> found no
  player). The loop runs only on a list of at least two players.
\<close>

fun advanceTurn_loop :: "player list \<Rightarrow> nat \<Rightarrow> int \<Rightarrow> ident option" where
  "advanceTurn_loop ps 0 nextIndex = None"
| "advanceTurn_loop ps (Suc k) nextIndex =
     (let n = (nextIndex + 1) mod int (length ps)
      in if status (ps ! nat n) = Active then Some (p_id (ps ! nat n))
         else advanceTurn_loop ps k n)"

definition advanceTurn :: "game \<Rightarrow> game" where
  "advanceTurn st =
     (if gameStatus st \<noteq> InProgress then st
      else let activePlayers = filter (\<lambda>p. status p = Active) (players st)
           in if length activePlayers \<le> 1 then checkVictory st
              else let currentIndex =
                         (case findIndex (\<lambda>p. Some (p_id p) = currentPlayerTurn st) (players st) of
                            None \<Rightarrow> - 1
                          | Some i \<Rightarrow> int i)
                   in st \<lparr> currentPlayerTurn :=
                             advanceTurn_loop (players st) (length (players st)) currentIndex \<rparr>)"

definition resetGame :: "game \<Rightarrow> game" where
  "resetGame st =
     createInitialState (if gridSize st \<noteq> 0 then gridSize st else ALLOWED_GRID_SIZES ! 0)"

section \<open>Join and leave\<close>

text \<open>
  \<open>String.prototype.trim\<close> removes the white space and line terminator code units of
  ECMAScript from both ends.
\<close>

definition isWhiteSpace :: "nat \<Rightarrow> bool" where
  "isWhiteSpace c =
     (c \<in> {9, 10, 11, 12, 13, 32, 160, 5760, 8232, 8233, 8239, 8287, 12288, 65279}
      \<or> (8192 \<le> c \<and> c \<le> 8202))"

definition trim :: "jsstring \<Rightarrow> jsstring" where
  "trim s = rev (dropWhile isWhiteSpace (rev (dropWhile isWhiteSpace s)))"

definition isHexDigit :: "nat \<Rightarrow> bool" where
  "isHexDigit c = ((48 \<le> c \<and> c \<le> 57) \<or> (97 \<le> c \<and> c \<le> 102) \<or> (65 \<le> c \<and> c \<le> 70))"

text \<open>The regular expression \<open>/^#([0-9a-fA-F]{6})$/\<close>.\<close>

definition matchesHexColor :: "jsstring \<Rightarrow> bool" where
  "matchesHexColor s =
     (case s of
        [] \<Rightarrow> False
      | c # ds \<Rightarrow> c = 35 \<and> length ds = 6 \<and> list_all isHexDigit ds)"

text \<open>
  \<open>toUpperCase\<close> on the code units of the ASCII letters, the only ones a string that
  matches the regular expression can hold.
\<close>

definition toUpperCase :: "jsstring \<Rightarrow> jsstring" where
  "toUpperCase s = map (\<lambda>c. if 97 \<le> c \<and> c \<le> 122 then c - 32 else c) s"

text \<open>The argument is \<open>None\<close> for a value that is not a string.\<close>

definition normalizeColor :: "jsstring option \<Rightarrow> jsstring option" where
  "normalizeColor color =
     (case color of
        None \<Rightarrow> None
      | Some c \<Rightarrow> if matchesHexColor (trim c) then Some (toUpperCase (trim c)) else None)"

definition setGridSizeIfLobby :: "game \<Rightarrow> rat \<Rightarrow> game" where
  "setGridSizeIfLobby st gsize =
     (if gameStatus st \<noteq> Lobby \<or> length (players st) > 0 \<or> gsize \<notin> set ALLOWED_GRID_SIZES
      then st
      else st \<lparr> gridSize := gsize \<rparr>)"

text \<open>
  \<open>userId || null\<close>: a user id that is missing or is the empty string is stored as
  \<open>null\<close>.
\<close>

definition orNull :: "ident option \<Rightarrow> ident option" where
  "orNull v = (case v of None \<Rightarrow> None | Some u \<Rightarrow> if u = [] then None else Some u)"

text \<open>
  \<open>addPlayer({ pseudo, color, gridSizeOverride, userId })\<close>; \<open>newId\<close> is the result of
  \<open>randomUUID()\<close>. A pseudo or a color that is not a string is \<open>None\<close>. The result is
  the new player and the new state.
\<close>

definition addPlayer ::
  "game \<Rightarrow> jsstring option \<Rightarrow> jsstring option \<Rightarrow> rat option \<Rightarrow> ident option \<Rightarrow> ident
     \<Rightarrow> error + (player \<times> game)" where
  "addPlayer st pseudoArg color gridSizeOverride userIdArg newId =
     (if length (players st) \<ge> MAX_PLAYERS then Inl LobbyFull
      else (case pseudoArg of
        None \<Rightarrow> Inl InvalidPseudo
      | Some name \<Rightarrow>
          if name = [] \<or> length (trim name) = 0 then Inl InvalidPseudo
          else (case normalizeColor color of
            None \<Rightarrow> Inl InvalidColor
          | Some normalizedColor \<Rightarrow>
              let st1 = (case gridSizeOverride of
                           None \<Rightarrow> st
                         | Some g \<Rightarrow> if g \<noteq> 0 then setGridSizeIfLobby st g else st);
                  newPlayer = \<lparr> p_id = newId, userId = orNull userIdArg, pseudo = trim name,
                               couleur = normalizedColor, pdv = PLAYER_HP,
                               position = startingPositionAt st1 (length (players st1)),
                               obstaclesRestants = OBSTACLE_STOCK, status = Active \<rparr>;
                  st2 = st1 \<lparr> players := players st1 @ [newPlayer] \<rparr>;
                  st3 = (if length (players st2) = MAX_PLAYERS
                         then st2 \<lparr> gameStatus := InProgress,
                                    currentPlayerTurn := Some (p_id (players st2 ! 0)) \<rparr>
                         else st2)
              in Inr (newPlayer, st3))))"

definition removePlayer :: "game \<Rightarrow> ident \<Rightarrow> game" where
  "removePlayer st playerId =
     (case findIndex (\<lambda>p. p_id p = playerId) (players st) of
        None \<Rightarrow> st
      | Some index \<Rightarrow>
          let leaver = players st ! index;
              st1 = st \<lparr> players := take index (players st) @ drop (Suc index) (players st) \<rparr>
          in if length (players st1) = 0 then createInitialState (gridSize st1)
             else if status leaver = Active \<and> gameStatus st1 = InProgress
             then checkVictory (advanceTurn (markPlayerDefeated st1 (p_id leaver)))
             else if gameStatus st1 = Lobby
             then st1 \<lparr> players :=
                         map (\<lambda>(p, idx). p \<lparr> position := startingPositionAt st1 idx \<rparr>)
                           (zip (players st1) [0 ..< length (players st1)]) \<rparr>
             else st1)"

section \<open>Action validator and executor\<close>

definition executeMove :: "game \<Rightarrow> ident \<Rightarrow> rawTarget \<Rightarrow> (error + game) option" where
  "executeMove st playerId target =
     (case requireActivePlayer st playerId of
        Inl e \<Rightarrow> Some (Inl e)
      | Inr i \<Rightarrow>
     (case ensureTargetValid st target of
        Inl e \<Rightarrow> Some (Inl e)
      | Inr tgt \<Rightarrow>
     (case position (players st ! i) of
        None \<Rightarrow> Some (Inl TypeError)
      | Some here \<Rightarrow>
          if \<not> isStraightLine here tgt then Some (Inl MoveNotStraight)
          else if distance here tgt = 0 \<or> distance here tgt > MOVE_RANGE
          then Some (Inl MoveTooFar)
          else (case isPathClear st here tgt of
                  None \<Rightarrow> None
                | Some (Inl e) \<Rightarrow> Some (Inl e)
                | Some (Inr False) \<Rightarrow> Some (Inl PathBlocked)
                | Some (Inr True) \<Rightarrow>
                    Some (Inr (advanceTurn (cleanupAfterAction
                      (st \<lparr> players :=
                         (players st)[i := (players st ! i) \<lparr> position := Some tgt \<rparr>] \<rparr>))))))))"

definition hitId :: "game \<Rightarrow> hit \<Rightarrow> ident" where
  "hitId st h =
     (case h of HitPlayer k \<Rightarrow> p_id (players st ! k) | HitObstacle j \<Rightarrow> o_id (obstacles st ! j))"

text \<open>
  \<open>getPlayerAt(target) || getObstacleAt(target)\<close>, of which \<open>executeAttack\<close> reads the
  \<open>id\<close> only.
\<close>

definition explicitTargetId :: "game \<Rightarrow> pos \<Rightarrow> error + ident option" where
  "explicitTargetId st tgt =
     (case getPlayerAt st tgt of
        Inl e \<Rightarrow> Inl e
      | Inr (Some k) \<Rightarrow> Inr (Some (p_id (players st ! k)))
      | Inr None \<Rightarrow> Inr (map_option (\<lambda>j. o_id (obstacles st ! j)) (getObstacleAt st tgt)))"

definition damagePlayer :: "game \<Rightarrow> nat \<Rightarrow> int \<Rightarrow> game" where
  "damagePlayer st k amount =
     st \<lparr> players := (players st)[k := (players st ! k) \<lparr> pdv := pdv (players st ! k) - amount \<rparr>] \<rparr>"

text \<open>The mutations of \<open>executeAttack\<close> once every check has passed.\<close>

definition applyAttack :: "game \<Rightarrow> nat \<Rightarrow> hit \<Rightarrow> game" where
  "applyAttack st i h =
     (let st1 = damagePlayer st i ATTACK_COST;
          st2 = (if pdv (players st1 ! i) \<le> 0
                 then markPlayerDefeated st1 (p_id (players st1 ! i)) else st1);
          st3 = (case h of
                   HitPlayer k \<Rightarrow>
                     let s = damagePlayer st2 k ATTACK_DAMAGE
                     in if pdv (players s ! k) \<le> 0
                        then markPlayerDefeated s (p_id (players s ! k)) else s
                 | HitObstacle j \<Rightarrow>
                     let s = st2 \<lparr> obstacles :=
                               (obstacles st2)[j := (obstacles st2 ! j)
                                  \<lparr> o_pdv := o_pdv (obstacles st2 ! j) - ATTACK_DAMAGE \<rparr>] \<rparr>
                     in if o_pdv (obstacles s ! j) \<le> 0
                        then s \<lparr> obstacles :=
                                 filter (\<lambda>ob. o_id ob \<noteq> o_id (obstacles s ! j)) (obstacles s) \<rparr>
                        else s)
      in advanceTurn (cleanupAfterAction st3))"

definition executeAttack :: "game \<Rightarrow> ident \<Rightarrow> rawTarget \<Rightarrow> (error + game) option" where
  "executeAttack st playerId target =
     (case requireActivePlayer st playerId of
        Inl e \<Rightarrow> Some (Inl e)
      | Inr i \<Rightarrow>
     (case ensureTargetValid st target of
        Inl e \<Rightarrow> Some (Inl e)
      | Inr tgt \<Rightarrow>
     (case position (players st ! i) of
        None \<Rightarrow> Some (Inl TypeError)
      | Some here \<Rightarrow>
          if \<not> isStraightLine here tgt then Some (Inl AttackNotStraight)
          else if distance here tgt = 0 \<or> distance here tgt > ATTACK_RANGE
          then Some (Inl AttackTooFar)
          else (case findFirstEntity st here tgt of
                  None \<Rightarrow> None
                | Some (Inl e) \<Rightarrow> Some (Inl e)
                | Some (Inr None) \<Rightarrow> Some (Inl NoTarget)
                | Some (Inr (Some entityHit)) \<Rightarrow>
                    (case explicitTargetId st tgt of
                       Inl e \<Rightarrow> Some (Inl e)
                     | Inr explicitTarget \<Rightarrow>
                         if explicitTarget \<noteq> None \<and> Some (hitId st entityHit) \<noteq> explicitTarget
                         then Some (Inl AttackBlocked)
                         else Some (Inr (applyAttack st i entityHit)))))))"

text \<open>\<open>newId\<close> is the \<open>randomUUID()\<close> of the new obstacle.\<close>

definition executePlaceObstacle :: "game \<Rightarrow> ident \<Rightarrow> rawTarget \<Rightarrow> ident \<Rightarrow> error + game" where
  "executePlaceObstacle st playerId target newId =
     (case requireActivePlayer st playerId of
        Inl e \<Rightarrow> Inl e
      | Inr i \<Rightarrow>
     (case ensureTargetValid st target of
        Inl e \<Rightarrow> Inl e
      | Inr tgt \<Rightarrow>
          if obstaclesRestants (players st ! i) \<le> 0 then Inl NoStock
          else (case position (players st ! i) of
                  None \<Rightarrow> Inl TypeError
                | Some here \<Rightarrow>
                    if \<not> isAdjacent here tgt then Inl NotAdjacent
                    else (case isOccupied st tgt of
                            Inl e \<Rightarrow> Inl e
                          | Inr True \<Rightarrow> Inl CellOccupied
                          | Inr False \<Rightarrow>
                              Inr (advanceTurn (cleanupAfterAction
                                (st \<lparr> obstacles := obstacles st @
                                        [\<lparr> o_id = newId, o_position = tgt, o_pdv = OBSTACLE_HP,
                                           ownerId = p_id (players st ! i) \<rparr>],
                                      players := (players st)[i := (players st ! i)
                                        \<lparr> obstaclesRestants :=
                                            obstaclesRestants (players st ! i) - 1 \<rparr>] \<rparr>)))))))"

section \<open>Message handlers of server/index.js\<close>

text \<open>
  The handlers are the public operations: \<open>handleJoin\<close>, \<open>handleRequestAction\<close>,
  \<open>handleResetGame\<close> and \<open>handleDisconnect\<close>. The entry of the \<open>clients\<close> map for the
  calling socket is the argument \<open>meta\<close>; a handler returns the message it sends to the
  caller (\<open>GAME_STATE_UPDATE\<close> for a broadcast of the new state) and the new state.
\<close>

datatype clientMeta = SpectatorClient | PlayerClient ident

datatype actionType = MOVE | ATTACK | PLACE_OBSTACLE | OtherActionType

datatype reply =
    ACTION_INVALID error
  | JOINED_AS_SPECTATOR
  | JOINED_AS_PLAYER ident
  | GAME_STATE_UPDATE
  | GAME_RESET

text \<open>\<open>parseGridSize\<close> on the result of \<open>parseInt\<close> (\<open>None\<close> for \<open>NaN\<close>).\<close>

definition parseGridSize :: "rat option \<Rightarrow> rat option" where
  "parseGridSize parsed =
     (case parsed of
        None \<Rightarrow> None
      | Some n \<Rightarrow> if n \<in> set ALLOWED_GRID_SIZES then Some n else None)"

definition handleJoin ::
  "game \<Rightarrow> clientMeta \<Rightarrow> jsstring option \<Rightarrow> jsstring option \<Rightarrow> rat option \<Rightarrow> ident option
     \<Rightarrow> ident \<Rightarrow> reply \<times> game" where
  "handleJoin st meta pseudoArg color gridSizeArg userIdArg newId =
     (case meta of
        PlayerClient pid \<Rightarrow> (ACTION_INVALID PlayerAlreadyJoined, st)
      | SpectatorClient \<Rightarrow>
          if length (players st) \<ge> MAX_PLAYERS \<or> gameStatus st \<noteq> Lobby
          then (JOINED_AS_SPECTATOR, st)
          else (case addPlayer st pseudoArg color (parseGridSize gridSizeArg) userIdArg newId of
                  Inl e \<Rightarrow> (ACTION_INVALID e, st)
                | Inr (p, st') \<Rightarrow> (JOINED_AS_PLAYER (p_id p), st')))"

definition handleRequestAction ::
  "game \<Rightarrow> clientMeta \<Rightarrow> actionType \<Rightarrow> rawTarget \<Rightarrow> ident \<Rightarrow> (reply \<times> game) option" where
  "handleRequestAction st meta kind target newId =
     (case meta of
        SpectatorClient \<Rightarrow> Some (ACTION_INVALID SpectatorsNotAllowed, st)
      | PlayerClient playerId \<Rightarrow>
          if gameStatus st \<noteq> InProgress then Some (ACTION_INVALID GameNotInProgress, st)
          else if currentPlayerTurn st \<noteq> Some playerId then Some (ACTION_INVALID NotYourTurn, st)
          else (case (case kind of
                        MOVE \<Rightarrow> executeMove st playerId target
                      | ATTACK \<Rightarrow> executeAttack st playerId target
                      | PLACE_OBSTACLE \<Rightarrow> Some (executePlaceObstacle st playerId target newId)
                      | OtherActionType \<Rightarrow> Some (Inl UnknownAction)) of
                  None \<Rightarrow> None
                | Some (Inl e) \<Rightarrow> Some (ACTION_INVALID e, st)
                | Some (Inr st') \<Rightarrow> Some (GAME_STATE_UPDATE, st')))"

definition handleResetGame :: "game \<Rightarrow> reply \<times> game" where
  "handleResetGame st =
     (if gameStatus st \<noteq> Finished then (ACTION_INVALID GameNotFinished, st)
      else (GAME_RESET, resetGame st))"

definition handleDisconnect :: "game \<Rightarrow> clientMeta \<Rightarrow> game" where
  "handleDisconnect st meta =
     (case meta of SpectatorClient \<Rightarrow> st | PlayerClient playerId \<Rightarrow> removePlayer st playerId)"

section \<open>Notions of the specification\<close>

text \<open>
  The player an action names: \<open>state.players.find((p) => p.id === playerId)\<close>, as
  \<open>requireActivePlayer\<close> looks it up.
\<close>

definition lookupPlayer :: "game \<Rightarrow> ident \<Rightarrow> player option" where
  "lookupPlayer st playerId = find (\<lambda>p. p_id p = playerId) (players st)"

text \<open>
  The shared preconditions of the three actions: the game is in progress, the acting
  player exists and is Active, and holds the turn.
\<close>

definition sharedPreconditions :: "game \<Rightarrow> ident \<Rightarrow> bool" where
  "sharedPreconditions st playerId =
     (gameStatus st = InProgress
      \<and> (case lookupPlayer st playerId of None \<Rightarrow> False | Some p \<Rightarrow> status p = Active)
      \<and> currentPlayerTurn st = Some playerId)"

text \<open>
  A grid cell has integer coordinates; \<open>inGrid\<close> is the bounds test of
  \<open>ensureTargetValid\<close>.
\<close>

definition isCell :: "pos \<Rightarrow> bool" where
  "isCell c = (pos_x c \<in> \<int> \<and> pos_y c \<in> \<int>)"

definition inGrid :: "game \<Rightarrow> pos \<Rightarrow> bool" where
  "inGrid st c = (0 \<le> pos_x c \<and> pos_x c < gridSize st \<and> 0 \<le> pos_y c \<and> pos_y c < gridSize st)"

text \<open>
  The states that the operations build: identifiers are pairwise distinct (they come
  from \<open>randomUUID()\<close>), and an Active player has hit points left and stands on a cell
  of the grid (\<open>markPlayerDefeated\<close> clears the position together with the status, and
  every position comes from \<open>getStartingPositions\<close> or from a completed move).
\<close>

definition wellFormed :: "game \<Rightarrow> bool" where
  "wellFormed st =
     (distinct (map p_id (players st) @ map o_id (obstacles st))
      \<and> (\<forall>p \<in> set (players st). status p = Active \<longrightarrow>
            0 < pdv p \<and> (\<exists>c. position p = Some c \<and> isCell c \<and> inGrid st c)))"

text \<open>A cell is occupied by an Active player or by an obstacle.\<close>

definition occupiedCell :: "game \<Rightarrow> pos \<Rightarrow> bool" where
  "occupiedCell st c =
     ((\<exists>p \<in> set (players st). status p = Active \<and> position p = Some c)
      \<or> (\<exists>ob \<in> set (obstacles st). o_position ob = c))"

text \<open>
  The cells of the path from \<open>a\<close> (exclusive) to \<open>b\<close> (inclusive), one step at a time in
  the unit direction from \<open>a\<close> to \<open>b\<close>; for an attack, the ray.
\<close>

definition pathCells :: "pos \<Rightarrow> pos \<Rightarrow> pos list" where
  "pathCells a b =
     map (\<lambda>k. \<lparr> pos_x = pos_x a + of_nat k * Math_sign (pos_x b - pos_x a),
                pos_y = pos_y a + of_nat k * Math_sign (pos_y b - pos_y a) \<rparr>)
       [1 ..< Suc (nat \<lfloor>distance a b\<rfloor>)]"



text \<open>A hit refers to an entity of the state.\<close>

definition validHit :: "game \<Rightarrow> hit \<Rightarrow> bool" where
  "validHit st h =
     (case h of HitPlayer k \<Rightarrow> k < length (players st)
              | HitObstacle j \<Rightarrow> j < length (obstacles st))"

text \<open>
  The facts that every operation keeps: the state is well formed, the grid has an allowed
  size and at most \<open>MAX_PLAYERS\<close> players are seated.
\<close>

definition storeInvariant :: "game \<Rightarrow> bool" where
  "storeInvariant st =
     (wellFormed st \<and> gridSize st \<in> set ALLOWED_GRID_SIZES \<and> length (players st) \<le> MAX_PLAYERS)"

text \<open>An id drawn by \<open>randomUUID()\<close> is not the id of a seated player or a lying obstacle.\<close>

definition freshId :: "game \<Rightarrow> ident \<Rightarrow> bool" where
  "freshId st newId =
     (newId \<notin> set (map p_id (players st)) \<union> set (map o_id (obstacles st)))"

text \<open>
  The states of the store of \<open>server/index.js\<close>: \<open>new GameStateManager()\<close>, then any
  sequence of join, action, reset and disconnect messages, each one answered.
\<close>

inductive reachable :: "game \<Rightarrow> bool" where
  start: "reachable (createInitialState (ALLOWED_GRID_SIZES ! 0))"
| joined: "reachable st \<Longrightarrow> freshId st newId \<Longrightarrow>
     reachable (snd (handleJoin st meta pseudoArg color gridSizeArg userIdArg newId))"
| acted: "reachable st \<Longrightarrow> freshId st newId \<Longrightarrow>
     handleRequestAction st meta kind target newId = Some (r, st') \<Longrightarrow> reachable st'"
| reset: "reachable st \<Longrightarrow> reachable (snd (handleResetGame st))"
| left: "reachable st \<Longrightarrow> reachable (handleDisconnect st meta)"

section \<open>Example states\<close>

text \<open>
  A player as \<open>addPlayer\<close> creates it (pseudo \<open>"A"\<close>, colour \<open>"#FF00AA"\<close>), at a given
  cell, and a player as \<open>markPlayerDefeated\<close> leaves it.
\<close>

definition demoPlayer :: "ident \<Rightarrow> rat \<Rightarrow> rat \<Rightarrow> player" where
  "demoPlayer i a b =
     \<lparr> p_id = i, userId = None, pseudo = [65], couleur = [35, 70, 70, 48, 48, 65, 65],
       pdv = 10, position = Some \<lparr> pos_x = a, pos_y = b \<rparr>,
       obstaclesRestants = 3, status = Active \<rparr>"

definition fallenPlayer :: "ident \<Rightarrow> player" where
  "fallenPlayer i =
     \<lparr> p_id = i, userId = None, pseudo = [65], couleur = [35, 70, 70, 48, 48, 65, 65],
       pdv = 0, position = None, obstaclesRestants = 3, status = Defeated \<rparr>"

text \<open>A join request of a caller that has no seat yet, with pseudo \<open>"A"\<close> and colour \<open>"#ff00aa"\<close>.\<close>

definition join :: "game \<Rightarrow> ident \<Rightarrow> game" where
  "join st newId =
     snd (handleJoin st SpectatorClient (Some [65]) (Some [35, 102, 102, 48, 48, 97, 97])
            None None newId)"

text \<open>The state after four joins on the fresh store of \<open>new GameStateManager()\<close>.\<close>

definition joined4 :: game where
  "joined4 =
     \<lparr> gameStatus = InProgress, gridSize = 9,
       players = [demoPlayer ''p1'' 0 0, demoPlayer ''p2'' 8 0,
                  demoPlayer ''p3'' 0 8, demoPlayer ''p4'' 8 8],
       obstacles = [], currentPlayerTurn = Some ''p1'', winner = None, winnerId = None \<rparr>"

text \<open>States in progress in which one player, and in which no player, is Active.\<close>

definition oneActive :: game where
  "oneActive =
     \<lparr> gameStatus = InProgress, gridSize = 9,
       players = [fallenPlayer ''p1'', demoPlayer ''p2'' 8 0],
       obstacles = [], currentPlayerTurn = Some ''p2'', winner = None, winnerId = None \<rparr>"

definition noneActive :: game where
  "noneActive =
     \<lparr> gameStatus = InProgress, gridSize = 9,
       players = [fallenPlayer ''p1'', fallenPlayer ''p2''],
       obstacles = [], currentPlayerTurn = Some ''p2'', winner = None, winnerId = None \<rparr>"

text \<open>A finished game: \<open>oneActive\<close> after victory evaluation.\<close>

definition finishedGame :: game where
  "finishedGame =
     \<lparr> gameStatus = Finished, gridSize = 9,
       players = [fallenPlayer ''p1'', demoPlayer ''p2'' 8 0],
       obstacles = [], currentPlayerTurn = Some ''p2'', winner = Some [65],
       winnerId = Some ''p2'' \<rparr>"

text \<open>\<open>joined4\<close> after the first player has moved one cell down: the second player holds the turn.\<close>

definition afterMove1 :: game where
  "afterMove1 =
     \<lparr> gameStatus = InProgress, gridSize = 9,
       players = [demoPlayer ''p1'' 0 1, demoPlayer ''p2'' 8 0,
                  demoPlayer ''p3'' 0 8, demoPlayer ''p4'' 8 8],
       obstacles = [], currentPlayerTurn = Some ''p2'', winner = None, winnerId = None \<rparr>"

text \<open>The socket of a seated player closes.\<close>

definition leave :: "game \<Rightarrow> ident \<Rightarrow> game" where
  "leave st playerId = handleDisconnect st (PlayerClient playerId)"

text \<open>
  A state in which the first player has placed its three obstacles and holds the turn
  again (the other players are back on their corners).
\<close>

definition stockSpent :: game where
  "stockSpent =
     \<lparr> gameStatus = InProgress, gridSize = 9,
       players = [(demoPlayer ''p1'' 0 0) \<lparr> obstaclesRestants := 0 \<rparr>, demoPlayer ''p2'' 8 0,
                  demoPlayer ''p3'' 0 8, demoPlayer ''p4'' 8 8],
       obstacles = [\<lparr> o_id = ''o1'', o_position = \<lparr> pos_x = 1, pos_y = 0 \<rparr>, o_pdv = 2, ownerId = ''p1'' \<rparr>,
                    \<lparr> o_id = ''o2'', o_position = \<lparr> pos_x = 0, pos_y = 1 \<rparr>, o_pdv = 2, ownerId = ''p1'' \<rparr>,
                    \<lparr> o_id = ''o3'', o_position = \<lparr> pos_x = 1, pos_y = 1 \<rparr>, o_pdv = 2, ownerId = ''p1'' \<rparr>],
       currentPlayerTurn = Some ''p1'', winner = None, winnerId = None \<rparr>"


text \<open>
  \<open>joined4\<close> after the first player has placed an obstacle on the cell \<open>(0, 1)\<close>, and
  that state after the second player, who then holds the turn, has left: the turn is
  back with the first player.
\<close>

definition afterPlace1 :: game where
  "afterPlace1 =
     \<lparr> gameStatus = InProgress, gridSize = 9,
       players = [(demoPlayer ''p1'' 0 0) \<lparr> obstaclesRestants := 2 \<rparr>, demoPlayer ''p2'' 8 0,
                  demoPlayer ''p3'' 0 8, demoPlayer ''p4'' 8 8],
       obstacles = [\<lparr> o_id = ''o1'', o_position = \<lparr> pos_x = 0, pos_y = 1 \<rparr>, o_pdv = 2,
                      ownerId = ''p1'' \<rparr>],
       currentPlayerTurn = Some ''p2'', winner = None, winnerId = None \<rparr>"

definition rayOpen :: game where
  "rayOpen =
     \<lparr> gameStatus = InProgress, gridSize = 9,
       players = [(demoPlayer ''p1'' 0 0) \<lparr> obstaclesRestants := 2 \<rparr>,
                  demoPlayer ''p3'' 0 8, demoPlayer ''p4'' 8 8],
       obstacles = [\<lparr> o_id = ''o1'', o_position = \<lparr> pos_x = 0, pos_y = 1 \<rparr>, o_pdv = 2,
                      ownerId = ''p1'' \<rparr>],
       currentPlayerTurn = Some ''p1'', winner = None, winnerId = None \<rparr>"

section \<open>Properties of the array helpers\<close>

lemma findIndex_None: "findIndex P xs = None \<longleftrightarrow> (\<forall>x \<in> set xs. \<not> P x)"
  by (induction xs) auto

lemma findIndex_Some:
  "findIndex P xs = Some i \<Longrightarrow> i < length xs \<and> P (xs ! i) \<and> (\<forall>j < i. \<not> P (xs ! j))"
proof (induction xs arbitrary: i)
  case Nil
  then show ?case by simp
next
  case (Cons x xs)
  show ?case
  proof (cases "P x")
    case True
    with Cons.prems show ?thesis by simp
  next
    case False
    with Cons.prems obtain k where k: "findIndex P xs = Some k" "i = Suc k"
      by auto
    from Cons.IH [OF k(1)] False k(2) show ?thesis
      by (auto simp: nth_Cons split: nat.splits)
  qed
qed

lemma find_findIndex: "find P xs = map_option (\<lambda>i. xs ! i) (findIndex P xs)"
  by (induction xs) (auto simp: option.map_comp comp_def)

lemma requireActivePlayer_eq:
  "requireActivePlayer st playerId =
     (case lookupPlayer st playerId of
        None \<Rightarrow> Inl PlayerNotFound
      | Some p \<Rightarrow> if status p \<noteq> Active then Inl PlayerEliminated
                  else Inr (the (findIndex (\<lambda>p. p_id p = playerId) (players st))))"
  by (simp add: requireActivePlayer_def lookupPlayer_def find_findIndex split: option.splits)

lemmas join_defs = join_def handleJoin_def addPlayer_def orNull_def MAX_PLAYERS_def
  parseGridSize_def normalizeColor_def trim_def isWhiteSpace_def matchesHexColor_def isHexDigit_def
  toUpperCase_def startingPositionAt_def getStartingPositions_def PLAYER_HP_def
  OBSTACLE_STOCK_def createInitialState_def

lemma joined4_reached:
  "join (join (join (join (createInitialState 9) ''p1'') ''p2'') ''p3'') ''p4'' = joined4"
  by (simp add: join_defs joined4_def demoPlayer_def Let_def)

section \<open>Victory evaluation\<close>

text \<open>
  Claim C9. Victory evaluation counts the players whose status is Active. If exactly one
  remains while the game is in progress, the status becomes Finished and that player is
  the recorded winner (its pseudo in \<open>winner\<close>, its id in \<open>winnerId\<close>); if none remains
  while the game is in progress, the status becomes Finished with no winner; in every
  other case the state is unchanged.
\<close>

theorem checkVictory_spec:
  "(length (filter (\<lambda>p. status p = Active) (players st)) = 1 \<and> gameStatus st = InProgress
      \<longrightarrow> (\<exists>w. filter (\<lambda>p. status p = Active) (players st) = [w]
             \<and> checkVictory st = st \<lparr> gameStatus := Finished, winner := Some (pseudo w),
                                      winnerId := Some (p_id w) \<rparr>))
   \<and> (length (filter (\<lambda>p. status p = Active) (players st)) = 0 \<and> gameStatus st = InProgress
      \<longrightarrow> checkVictory st = st \<lparr> gameStatus := Finished, winner := None, winnerId := None \<rparr>)
   \<and> (length (filter (\<lambda>p. status p = Active) (players st)) > 1 \<or> gameStatus st \<noteq> InProgress
      \<longrightarrow> checkVictory st = st)"
proof (intro conjI impI)
  assume a: "length (filter (\<lambda>p. status p = Active) (players st)) = 1 \<and> gameStatus st = InProgress"
  then obtain w where w: "filter (\<lambda>p. status p = Active) (players st) = [w]"
    by (auto simp: length_Suc_conv)
  with a show "\<exists>w. filter (\<lambda>p. status p = Active) (players st) = [w]
             \<and> checkVictory st = st \<lparr> gameStatus := Finished, winner := Some (pseudo w),
                                      winnerId := Some (p_id w) \<rparr>"
    by (simp add: checkVictory_def)
next
  assume "length (filter (\<lambda>p. status p = Active) (players st)) = 0 \<and> gameStatus st = InProgress"
  then show "checkVictory st = st \<lparr> gameStatus := Finished, winner := None, winnerId := None \<rparr>"
    by (simp add: checkVictory_def)
next
  assume "length (filter (\<lambda>p. status p = Active) (players st)) > 1 \<or> gameStatus st \<noteq> InProgress"
  then show "checkVictory st = st"
    by (auto simp: checkVictory_def Let_def)
qed

theorem checkVictory_spec_witness:
  "filter (\<lambda>p. status p = Active) (players oneActive) = [demoPlayer ''p2'' 8 0]
   \<and> gameStatus oneActive = InProgress
   \<and> checkVictory oneActive = finishedGame
   \<and> filter (\<lambda>p. status p = Active) (players noneActive) = []
   \<and> gameStatus noneActive = InProgress
   \<and> checkVictory noneActive
       = noneActive \<lparr> gameStatus := Finished, winner := None, winnerId := None \<rparr>
   \<and> length (filter (\<lambda>p. status p = Active) (players joined4)) = 4
   \<and> checkVictory joined4 = joined4
   \<and> gameStatus finishedGame = Finished
   \<and> checkVictory finishedGame = finishedGame"
  using checkVictory_spec [of oneActive] checkVictory_spec [of noneActive]
    checkVictory_spec [of joined4] checkVictory_spec [of finishedGame]
  by (simp add: oneActive_def noneActive_def joined4_def finishedGame_def demoPlayer_def
      fallenPlayer_def)

section \<open>Reset\<close>

text \<open>
  Claim C2. The reset operation (\<open>handleResetGame\<close>, the only caller of \<open>resetGame\<close>),
  called while the status is not Finished, fails and leaves the store as it is; called
  while the status is Finished, it yields a fresh empty Lobby with the same grid size
  and no players or obstacles. The grid sizes of the data model are positive; on the
  size \<open>0\<close>, which no store of the program holds, \<open>this.state.gridSize || 9\<close> would
  choose \<open>9\<close>.
\<close>

theorem handleResetGame_spec:
  "(gameStatus st \<noteq> Finished \<longrightarrow> handleResetGame st = (ACTION_INVALID GameNotFinished, st))
   \<and> (gameStatus st = Finished \<and> gridSize st \<noteq> 0 \<longrightarrow>
        handleResetGame st =
          (GAME_RESET, \<lparr> gameStatus = Lobby, gridSize = gridSize st, players = [], obstacles = [],
                         currentPlayerTurn = None, winner = None, winnerId = None \<rparr>))"
  by (simp add: handleResetGame_def resetGame_def createInitialState_def)

theorem handleResetGame_spec_witness:
  "gameStatus joined4 \<noteq> Finished
   \<and> handleResetGame joined4 = (ACTION_INVALID GameNotFinished, joined4)
   \<and> gameStatus finishedGame = Finished \<and> gridSize finishedGame \<noteq> 0
   \<and> handleResetGame finishedGame = (GAME_RESET, createInitialState 9)"
  using handleResetGame_spec [of joined4] handleResetGame_spec [of finishedGame]
  by (simp add: joined4_def finishedGame_def createInitialState_def)

section \<open>Join\<close>

lemma trim_blank:
  assumes "\<forall>c \<in> set s. isWhiteSpace c"
  shows "trim s = []"
proof -
  from assms have "dropWhile isWhiteSpace s = []" by simp
  then show ?thesis unfolding trim_def by (simp only: rev.simps dropWhile.simps)
qed

lemma trim_empty_iff: "trim s = [] \<longleftrightarrow> (\<forall>c \<in> set s. isWhiteSpace c)"
proof
  assume "\<forall>c \<in> set s. isWhiteSpace c"
  then show "trim s = []" by (rule trim_blank)
next
  assume e: "trim s = []"
  show "\<forall>c \<in> set s. isWhiteSpace c"
  proof (rule ccontr)
    assume "\<not> (\<forall>c \<in> set s. isWhiteSpace c)"
    then have ne: "dropWhile isWhiteSpace s \<noteq> []" by simp
    then have "\<not> isWhiteSpace (hd (dropWhile isWhiteSpace s))" by (rule hd_dropWhile)
    moreover from ne have "hd (dropWhile isWhiteSpace s) \<in> set (rev (dropWhile isWhiteSpace s))"
      by simp
    ultimately have "dropWhile isWhiteSpace (rev (dropWhile isWhiteSpace s)) \<noteq> []"
      by (metis dropWhile_eq_Nil_conv)
    with e show False by (simp add: trim_def)
  qed
qed

text \<open>
  Claim C5 as stated says that a join request is rejected when the colour fails strict
  hex validation. \<open>normalizeColor\<close> trims the colour before it tests the pattern
  \<open>/^#([0-9a-fA-F]{6})$/\<close>: the colour \<open>" #ff00aa "\<close>, with a space on each side,
  does not match the pattern, and the caller is seated as the first player, with the
  colour \<open>"#FF00AA"\<close>.
\<close>

theorem padded_colour_joins:
  "\<not> matchesHexColor [32, 35, 102, 102, 48, 48, 97, 97, 32]
   \<and> handleJoin (createInitialState 9) SpectatorClient (Some [65])
        (Some [32, 35, 102, 102, 48, 48, 97, 97, 32]) None None ''p1''
       = (JOINED_AS_PLAYER ''p1'',
          (createInitialState 9) \<lparr> players := [demoPlayer ''p1'' 0 0] \<rparr>)"
  by (simp add: join_defs demoPlayer_def Let_def)

text \<open>
  Claim C5, amended. A join request is rejected (the store is unchanged and
  the caller gets no seat) whenever the seat count has reached the maximum of 4 or the
  status is not Lobby, in which case a caller without a seat is told that it is a
  spectator; it is also rejected, with the reason of the name, when the display name is
  missing, is not a string, is empty or holds white space only, and, with the reason of
  the colour, when the colour is missing, is not a string or, once the white space
  around it is removed, is not \<open>#\<close> followed by exactly six hexadecimal digits. The
  last conjunct is the same for \<open>addPlayer\<close> itself, which throws in three of the
  cases (it does not read the status).
\<close>

theorem join_rejected:
  assumes "length (players st) \<ge> MAX_PLAYERS \<or> gameStatus st \<noteq> Lobby
           \<or> pseudoArg = None \<or> (\<exists>s. pseudoArg = Some s \<and> (\<forall>c \<in> set s. isWhiteSpace c))
           \<or> color = None \<or> (\<exists>c. color = Some c \<and> \<not> matchesHexColor (trim c))"
  shows "snd (handleJoin st meta pseudoArg color gridSizeArg userIdArg newId) = st
         \<and> fst (handleJoin st meta pseudoArg color gridSizeArg userIdArg newId)
             \<in> {JOINED_AS_SPECTATOR, ACTION_INVALID InvalidPseudo, ACTION_INVALID InvalidColor,
                ACTION_INVALID PlayerAlreadyJoined}
         \<and> (meta = SpectatorClient \<and> (length (players st) \<ge> MAX_PLAYERS \<or> gameStatus st \<noteq> Lobby)
              \<longrightarrow> fst (handleJoin st meta pseudoArg color gridSizeArg userIdArg newId)
                    = JOINED_AS_SPECTATOR)
         \<and> (meta = SpectatorClient \<and> length (players st) < MAX_PLAYERS \<and> gameStatus st = Lobby
              \<and> (pseudoArg = None \<or> (\<exists>s. pseudoArg = Some s \<and> (\<forall>c \<in> set s. isWhiteSpace c)))
              \<longrightarrow> fst (handleJoin st meta pseudoArg color gridSizeArg userIdArg newId)
                    = ACTION_INVALID InvalidPseudo)
         \<and> (meta = SpectatorClient \<and> length (players st) < MAX_PLAYERS \<and> gameStatus st = Lobby
              \<and> (\<exists>s. pseudoArg = Some s \<and> \<not> (\<forall>c \<in> set s. isWhiteSpace c))
              \<and> (color = None \<or> (\<exists>c. color = Some c \<and> \<not> matchesHexColor (trim c)))
              \<longrightarrow> fst (handleJoin st meta pseudoArg color gridSizeArg userIdArg newId)
                    = ACTION_INVALID InvalidColor)
         \<and> (length (players st) \<ge> MAX_PLAYERS
              \<or> pseudoArg = None \<or> (\<exists>s. pseudoArg = Some s \<and> (\<forall>c \<in> set s. isWhiteSpace c))
              \<or> color = None \<or> (\<exists>c. color = Some c \<and> \<not> matchesHexColor (trim c))
              \<longrightarrow> (\<exists>e \<in> {LobbyFull, InvalidPseudo, InvalidColor}.
                     addPlayer st pseudoArg color (parseGridSize gridSizeArg) userIdArg newId = Inl e))"
proof -
  have blank: "addPlayer st pseudoArg color g userIdArg newId = Inl InvalidPseudo"
    if "length (players st) < MAX_PLAYERS"
      "pseudoArg = None \<or> (\<exists>s. pseudoArg = Some s \<and> (\<forall>c \<in> set s. isWhiteSpace c))" for g
    using that by (auto simp: addPlayer_def trim_blank)
  have colour: "addPlayer st pseudoArg color g userIdArg newId = Inl InvalidColor"
    if "length (players st) < MAX_PLAYERS"
      "\<exists>s. pseudoArg = Some s \<and> \<not> (\<forall>c \<in> set s. isWhiteSpace c)"
      "color = None \<or> (\<exists>c. color = Some c \<and> \<not> matchesHexColor (trim c))" for g
  proof -
    from that(2) obtain s where s0: "pseudoArg = Some s" "\<not> (\<forall>c \<in> set s. isWhiteSpace c)"
      by blast
    from s0(2) have "trim s \<noteq> []" by (simp only: trim_empty_iff not_False_eq_True)
    moreover from s0(2) have "s \<noteq> []" by auto
    ultimately have s: "pseudoArg = Some s" "trim s \<noteq> []" "s \<noteq> []"
      using s0(1) by simp_all
    from that(3) have "normalizeColor color = None" by (auto simp: normalizeColor_def)
    with that(1) s show ?thesis by (simp add: addPlayer_def)
  qed
  have full: "addPlayer st pseudoArg color g userIdArg newId = Inl LobbyFull"
    if "length (players st) \<ge> MAX_PLAYERS" for g
    using that by (simp add: addPlayer_def)
  have cases3: "length (players st) \<ge> MAX_PLAYERS
      \<or> (length (players st) < MAX_PLAYERS
          \<and> (pseudoArg = None \<or> (\<exists>s. pseudoArg = Some s \<and> (\<forall>c \<in> set s. isWhiteSpace c))))
      \<or> (length (players st) < MAX_PLAYERS
          \<and> (\<exists>s. pseudoArg = Some s \<and> \<not> (\<forall>c \<in> set s. isWhiteSpace c)))"
    by (cases pseudoArg) auto
  let ?r = "handleJoin st meta pseudoArg color gridSizeArg userIdArg newId"
  have 1: "snd ?r = st \<and> fst ?r \<in> {JOINED_AS_SPECTATOR, ACTION_INVALID InvalidPseudo,
      ACTION_INVALID InvalidColor, ACTION_INVALID PlayerAlreadyJoined}"
  proof (cases meta)
    case (PlayerClient pid)
    then show ?thesis by (simp add: handleJoin_def)
  next
    case SpectatorClient
    show ?thesis
    proof (cases "length (players st) \<ge> MAX_PLAYERS \<or> gameStatus st \<noteq> Lobby")
      case True
      with SpectatorClient show ?thesis by (simp add: handleJoin_def)
    next
      case False
      with assms cases3 blank [of "parseGridSize gridSizeArg"]
        colour [of "parseGridSize gridSizeArg"]
      have "addPlayer st pseudoArg color (parseGridSize gridSizeArg) userIdArg newId
          \<in> {Inl InvalidPseudo, Inl InvalidColor}"
        by auto
      with SpectatorClient False show ?thesis by (auto simp: handleJoin_def)
    qed
  qed
  have 2: "meta = SpectatorClient \<and> (length (players st) \<ge> MAX_PLAYERS \<or> gameStatus st \<noteq> Lobby)
      \<longrightarrow> fst ?r = JOINED_AS_SPECTATOR"
    by (auto simp: handleJoin_def)
  have 3: "meta = SpectatorClient \<and> length (players st) < MAX_PLAYERS \<and> gameStatus st = Lobby
      \<and> (pseudoArg = None \<or> (\<exists>s. pseudoArg = Some s \<and> (\<forall>c \<in> set s. isWhiteSpace c)))
      \<longrightarrow> fst ?r = ACTION_INVALID InvalidPseudo"
    using blank [of "parseGridSize gridSizeArg"] by (auto simp: handleJoin_def)
  have 4: "meta = SpectatorClient \<and> length (players st) < MAX_PLAYERS \<and> gameStatus st = Lobby
      \<and> (\<exists>s. pseudoArg = Some s \<and> \<not> (\<forall>c \<in> set s. isWhiteSpace c))
      \<and> (color = None \<or> (\<exists>c. color = Some c \<and> \<not> matchesHexColor (trim c)))
      \<longrightarrow> fst ?r = ACTION_INVALID InvalidColor"
    using colour [of "parseGridSize gridSizeArg"] by (auto simp: handleJoin_def)
  have 5: "length (players st) \<ge> MAX_PLAYERS
      \<or> pseudoArg = None \<or> (\<exists>s. pseudoArg = Some s \<and> (\<forall>c \<in> set s. isWhiteSpace c))
      \<or> color = None \<or> (\<exists>c. color = Some c \<and> \<not> matchesHexColor (trim c))
      \<longrightarrow> (\<exists>e \<in> {LobbyFull, InvalidPseudo, InvalidColor}.
             addPlayer st pseudoArg color (parseGridSize gridSizeArg) userIdArg newId = Inl e)"
    using cases3 full [of "parseGridSize gridSizeArg"] blank [of "parseGridSize gridSizeArg"]
      colour [of "parseGridSize gridSizeArg"]
    by auto
  from 1 2 3 4 5 show ?thesis by blast
qed

theorem join_rejected_witness:
  "length (players joined4) \<ge> MAX_PLAYERS
   \<and> handleJoin joined4 SpectatorClient (Some [65]) (Some [35, 102, 102, 48, 48, 97, 97])
        None None ''p5'' = (JOINED_AS_SPECTATOR, joined4)
   \<and> gameStatus finishedGame \<noteq> Lobby
   \<and> handleJoin finishedGame SpectatorClient (Some [65]) (Some [35, 102, 102, 48, 48, 97, 97])
        None None ''p5'' = (JOINED_AS_SPECTATOR, finishedGame)
   \<and> isWhiteSpace 32 \<and> isWhiteSpace 9
   \<and> handleJoin (createInitialState 9) SpectatorClient (Some [32, 9])
        (Some [35, 102, 102, 48, 48, 97, 97]) None None ''p1''
        = (ACTION_INVALID InvalidPseudo, createInitialState 9)
   \<and> handleJoin (createInitialState 9) SpectatorClient None
        (Some [35, 102, 102, 48, 48, 97, 97]) None None ''p1''
        = (ACTION_INVALID InvalidPseudo, createInitialState 9)
   \<and> \<not> isWhiteSpace 65
   \<and> \<not> matchesHexColor (trim [35, 102, 102, 48, 48, 97])
   \<and> handleJoin (createInitialState 9) SpectatorClient (Some [65])
        (Some [35, 102, 102, 48, 48, 97]) None None ''p1''
        = (ACTION_INVALID InvalidColor, createInitialState 9)
   \<and> handleJoin (createInitialState 9) SpectatorClient (Some [65]) None None None ''p1''
        = (ACTION_INVALID InvalidColor, createInitialState 9)"
  using join_rejected [of joined4 "Some [65]" "Some [35, 102, 102, 48, 48, 97, 97]"
      SpectatorClient None None "''p5''"]
    join_rejected [of finishedGame "Some [65]" "Some [35, 102, 102, 48, 48, 97, 97]"
      SpectatorClient None None "''p5''"]
    join_rejected [of "createInitialState 9" "Some [32, 9]" "Some [35, 102, 102, 48, 48, 97, 97]"
      SpectatorClient None None "''p1''"]
    join_rejected [of "createInitialState 9" None "Some [35, 102, 102, 48, 48, 97, 97]"
      SpectatorClient None None "''p1''"]
    join_rejected [of "createInitialState 9" "Some [65]" "Some [35, 102, 102, 48, 48, 97]"
      SpectatorClient None None "''p1''"]
    join_rejected [of "createInitialState 9" "Some [65]" None
      SpectatorClient None None "''p1''"]
  by (simp add: join_defs joined4_def finishedGame_def)

section \<open>Shared preconditions of the actions\<close>

lemma executeMove_shared:
  "requireActivePlayer st playerId = Inl e \<Longrightarrow> executeMove st playerId t = Some (Inl e)"
  by (simp add: executeMove_def)

lemma executeAttack_shared:
  "requireActivePlayer st playerId = Inl e \<Longrightarrow> executeAttack st playerId t = Some (Inl e)"
  by (simp add: executeAttack_def)

lemma executePlaceObstacle_shared:
  "requireActivePlayer st playerId = Inl e \<Longrightarrow> executePlaceObstacle st playerId t n = Inl e"
  by (simp add: executePlaceObstacle_def)

text \<open>
  Claim C1. For each of the three actions (Move, Attack, PlaceObstacle) the shared
  preconditions are checked first and in the same way: when the game is not in progress,
  or the acting player does not exist, is not Active or does not hold the turn, the
  request fails with an \<open>ACTION_INVALID\<close> reply that carries one of the four reasons of
  these checks, whatever the target is, and the store (the turn with it) is unchanged.
  \<open>handleRequestAction\<close> checks the status and the turn, \<open>requireActivePlayer\<close> at the
  head of each \<open>execute...\<close> method checks that the player exists and is Active.
\<close>

theorem shared_preconditions_first:
  assumes "kind \<in> {MOVE, ATTACK, PLACE_OBSTACLE}"
    and "\<not> sharedPreconditions st playerId"
  shows "\<exists>reason \<in> {GameNotInProgress, NotYourTurn, PlayerNotFound, PlayerEliminated}.
           handleRequestAction st (PlayerClient playerId) kind target newId
             = Some (ACTION_INVALID reason, st)"
proof (cases "gameStatus st = InProgress \<and> currentPlayerTurn st = Some playerId")
  case False
  then show ?thesis
    by (auto simp: handleRequestAction_def)
next
  case True
  with assms(2) have "\<exists>e \<in> {PlayerNotFound, PlayerEliminated}. requireActivePlayer st playerId = Inl e"
    by (auto simp: sharedPreconditions_def requireActivePlayer_eq split: option.splits)
  then obtain e where e: "e \<in> {PlayerNotFound, PlayerEliminated}"
    "requireActivePlayer st playerId = Inl e" by blast
  from assms(1) True e(2) have
    "handleRequestAction st (PlayerClient playerId) kind target newId = Some (ACTION_INVALID e, st)"
    by (auto simp: handleRequestAction_def executeMove_shared executeAttack_shared
        executePlaceObstacle_shared)
  with e(1) show ?thesis by blast
qed

theorem shared_preconditions_first_witness:
  "\<not> sharedPreconditions joined4 ''p2''
   \<and> (\<exists>reason \<in> {GameNotInProgress, NotYourTurn, PlayerNotFound, PlayerEliminated}.
        handleRequestAction joined4 (PlayerClient ''p2'') MOVE (Some (JNum 8, JNum 1)) ''o1''
          = Some (ACTION_INVALID reason, joined4))
   \<and> handleRequestAction joined4 (PlayerClient ''p2'') MOVE (Some (JNum 8, JNum 1)) ''o1''
          = Some (ACTION_INVALID NotYourTurn, joined4)
   \<and> \<not> sharedPreconditions finishedGame ''p2''
   \<and> (\<exists>reason \<in> {GameNotInProgress, NotYourTurn, PlayerNotFound, PlayerEliminated}.
        handleRequestAction finishedGame (PlayerClient ''p2'') ATTACK (Some (JNum 8, JNum 1)) ''o1''
          = Some (ACTION_INVALID reason, finishedGame))"
proof -
  have a: "\<not> sharedPreconditions joined4 ''p2''"
    by (simp add: sharedPreconditions_def joined4_def)
  have b: "\<not> sharedPreconditions finishedGame ''p2''"
    by (simp add: sharedPreconditions_def finishedGame_def)
  have m: "MOVE \<in> {MOVE, ATTACK, PLACE_OBSTACLE}" and k: "ATTACK \<in> {MOVE, ATTACK, PLACE_OBSTACLE}"
    by simp_all
  show ?thesis
    using a b shared_preconditions_first [OF m a] shared_preconditions_first [OF k b]
    by (simp add: handleRequestAction_def joined4_def)
qed


section \<open>Leaving while holding the turn\<close>

lemma advanceTurn_loop_scan:
  "k + j = length ps \<Longrightarrow>
     advanceTurn_loop ps k (int j - 1) = map_option p_id (find (\<lambda>p. status p = Active) (drop j ps))"
proof (induction k arbitrary: j)
  case 0
  then show ?case by simp
next
  case (Suc k)
  then have j: "j < length ps" by simp
  then have m: "(int j - 1 + 1) mod int (length ps) = int j" by simp
  from j have d: "drop j ps = ps ! j # drop (Suc j) ps"
    by (simp add: Cons_nth_drop_Suc)
  from Suc.prems have "k + Suc j = length ps" by simp
  from Suc.IH [OF this] have
    "advanceTurn_loop ps k (int j) = map_option p_id (find (\<lambda>p. status p = Active) (drop (Suc j) ps))"
    by simp
  with m d show ?case by (simp add: Let_def)
qed

lemma advanceTurn_loop_front:
  "advanceTurn_loop ps (length ps) (- 1) = map_option p_id (find (\<lambda>p. status p = Active) ps)"
  using advanceTurn_loop_scan [of "length ps" 0 ps] by simp

lemma findIndex_removed:
  assumes "distinct (map f xs)" and "findIndex (\<lambda>p. f p = a) xs = Some i"
  shows "findIndex (\<lambda>p. f p = a) (take i xs @ drop (Suc i) xs) = None"
proof -
  from findIndex_Some [OF assms(2)] have i: "i < length xs" "f (xs ! i) = a" by auto
  then have xs: "xs = take i xs @ xs ! i # drop (Suc i) xs"
    by (simp add: id_take_nth_drop)
  from assms(1) have "distinct (map f (take i xs @ xs ! i # drop (Suc i) xs))"
    using xs by simp
  then have "f (xs ! i) \<notin> f ` set (take i xs @ drop (Suc i) xs)"
    by auto
  with i(2) have "\<forall>x \<in> set (take i xs @ drop (Suc i) xs). f x \<noteq> a"
    by (metis imageI)
  then show ?thesis
    by (simp only: findIndex_None) 
qed

text \<open>
  Claim C10. If the player that holds the turn leaves while the game is in progress and
  at least two Active players remain, the turn goes to the earliest Active player of the
  remaining join order: the leaver is no longer in the list, \<open>findIndex\<close> gives \<open>-1\<close>
  and the scan of \<open>advanceTurn\<close> starts at index \<open>0\<close>. It does not go to the player
  that followed the leaver in the rotation (in the example below the second of four
  players leaves and the first one, not the third, gets the turn). Identifiers are
  pairwise distinct, as \<open>randomUUID()\<close> makes them.
\<close>

theorem leaver_turn_restarts_from_front:
  assumes "gameStatus st = InProgress"
    and "currentPlayerTurn st = Some playerId"
    and "distinct (map p_id (players st))"
    and "findIndex (\<lambda>p. p_id p = playerId) (players st) = Some i"
    and "status (players st ! i) = Active"
    and "2 \<le> length (filter (\<lambda>p. status p = Active) (take i (players st) @ drop (Suc i) (players st)))"
  shows "players (removePlayer st playerId) = take i (players st) @ drop (Suc i) (players st)
         \<and> gameStatus (removePlayer st playerId) = InProgress
         \<and> currentPlayerTurn (removePlayer st playerId)
             = map_option p_id (find (\<lambda>p. status p = Active) (players (removePlayer st playerId)))
         \<and> currentPlayerTurn (removePlayer st playerId) \<noteq> None"
proof -
  define rest where "rest = take i (players st) @ drop (Suc i) (players st)"
  define st1 where "st1 = st \<lparr> players := rest \<rparr>"
  from assms(6) have act: "2 \<le> length (filter (\<lambda>p. status p = Active) rest)"
    by (simp add: rest_def)
  then have ne: "rest \<noteq> []" by auto
  have gone: "findIndex (\<lambda>p. p_id p = playerId) rest = None"
    unfolding rest_def by (rule findIndex_removed [OF assms(3) assms(4)])
  from findIndex_Some [OF assms(4)] have pid: "p_id (players st ! i) = playerId" by simp
  have mark: "markPlayerDefeated st1 (p_id (players st ! i)) = st1"
    by (simp add: markPlayerDefeated_def st1_def gone pid)
  have cur: "findIndex (\<lambda>p. Some (p_id p) = currentPlayerTurn st1) (players st1) = None"
    using gone by (simp add: st1_def assms(2))
  have adv: "advanceTurn st1 =
      st1 \<lparr> currentPlayerTurn := map_option p_id (find (\<lambda>p. status p = Active) rest) \<rparr>"
    using act by (simp add: advanceTurn_def cur Let_def advanceTurn_loop_front)
      (simp add: st1_def assms(1) advanceTurn_loop_front)
  from act have act': "filter (\<lambda>p. status p = Active) rest \<noteq> []"
    "length (filter (\<lambda>p. status p = Active) rest) \<noteq> Suc 0" by auto
  have "players (advanceTurn st1) = rest"
    by (simp add: adv) (simp add: st1_def)
  then have chk: "checkVictory (advanceTurn st1) = advanceTurn st1"
    by (simp add: checkVictory_def Let_def act')
  have len: "players st1 \<noteq> []" and gs: "gameStatus st1 = InProgress"
    using ne by (simp_all add: st1_def assms(1))
  have "removePlayer st playerId =
          (let leaver = players st ! i
           in if length (players st1) = 0 then createInitialState (gridSize st1)
              else if status leaver = Active \<and> gameStatus st1 = InProgress
              then checkVictory (advanceTurn (markPlayerDefeated st1 (p_id leaver)))
              else if gameStatus st1 = Lobby
              then st1 \<lparr> players :=
                          map (\<lambda>(p, idx). p \<lparr> position := startingPositionAt st1 idx \<rparr>)
                            (zip (players st1) [0 ..< length (players st1)]) \<rparr>
              else st1)"
    unfolding removePlayer_def st1_def rest_def assms(4) by (simp only: option.case Let_def)
  then have res: "removePlayer st playerId = advanceTurn st1"
    by (simp add: len gs assms(5) mark chk Let_def)
  from act obtain w where "find (\<lambda>p. status p = Active) rest = Some w"
    by (cases "find (\<lambda>p. status p = Active) rest") (auto simp: find_None_iff filter_empty_conv)
  then show ?thesis
    by (simp add: res adv) (simp add: st1_def rest_def assms(1))
qed


theorem leaver_turn_restarts_from_front_witness:
  "gameStatus afterMove1 = InProgress \<and> currentPlayerTurn afterMove1 = Some ''p2''
   \<and> map p_id (players afterMove1) = [''p1'', ''p2'', ''p3'', ''p4'']
   \<and> map p_id (players (removePlayer afterMove1 ''p2'')) = [''p1'', ''p3'', ''p4'']
   \<and> gameStatus (removePlayer afterMove1 ''p2'') = InProgress
   \<and> currentPlayerTurn (removePlayer afterMove1 ''p2'') = Some ''p1''"
proof -
  have h: "gameStatus afterMove1 = InProgress" "currentPlayerTurn afterMove1 = Some ''p2''"
    "distinct (map p_id (players afterMove1))"
    "findIndex (\<lambda>p. p_id p = ''p2'') (players afterMove1) = Some 1"
    "status (players afterMove1 ! 1) = Active"
    "2 \<le> length (filter (\<lambda>p. status p = Active)
            (take 1 (players afterMove1) @ drop (Suc 1) (players afterMove1)))"
    by (simp_all add: afterMove1_def demoPlayer_def)
  from leaver_turn_restarts_from_front [OF h] h(1,2) show ?thesis
    by (simp add: afterMove1_def demoPlayer_def)
qed

section \<open>The turn after the last leave\<close>

text \<open>
  Claim C7 says that in every state reachable through the public operations (join,
  leave, the three actions, reset) \<open>currentPlayerTurn\<close> is none or the id of a player
  that is in the players list and Active. The code does not keep this: after four
  joins, the first, second and third player leave while holding the turn. The third
  leave finds one Active player left, so \<open>advanceTurn\<close> returns through its early exit
  (\<open>activePlayers.length <= 1\<close>) and never reaches its assignments to
  \<open>currentPlayerTurn\<close>: the game is Finished and the turn still names the third player,
  who is no longer in the list.
\<close>

theorem stale_turn_after_last_leave:
  "leave (leave (leave (join (join (join (join (createInitialState 9) ''p1'') ''p2'') ''p3'') ''p4'')
      ''p1'') ''p2'') ''p3''
     = \<lparr> gameStatus = Finished, gridSize = 9, players = [demoPlayer ''p4'' 8 8],
         obstacles = [], currentPlayerTurn = Some ''p3'', winner = Some [65],
         winnerId = Some ''p4'' \<rparr>
   \<and> lookupPlayer (leave (leave (leave joined4 ''p1'') ''p2'') ''p3'') ''p3'' = None"
proof -
  have 1: "leave joined4 ''p1'' = joined4 \<lparr> players := [demoPlayer ''p2'' 8 0,
                  demoPlayer ''p3'' 0 8, demoPlayer ''p4'' 8 8], currentPlayerTurn := Some ''p2'' \<rparr>"
    by (simp add: leave_def handleDisconnect_def removePlayer_def markPlayerDefeated_def
        advanceTurn_def checkVictory_def joined4_def demoPlayer_def Let_def)
  have 2: "leave (leave joined4 ''p1'') ''p2'' = joined4 \<lparr> players := [
                  demoPlayer ''p3'' 0 8, demoPlayer ''p4'' 8 8], currentPlayerTurn := Some ''p3'' \<rparr>"
    unfolding 1
    by (simp add: leave_def handleDisconnect_def removePlayer_def markPlayerDefeated_def
        advanceTurn_def checkVictory_def joined4_def demoPlayer_def Let_def)
  have 3: "leave (leave (leave joined4 ''p1'') ''p2'') ''p3'' =
      \<lparr> gameStatus = Finished, gridSize = 9, players = [demoPlayer ''p4'' 8 8],
         obstacles = [], currentPlayerTurn = Some ''p3'', winner = Some [65],
         winnerId = Some ''p4'' \<rparr>"
    unfolding 2
    by (simp add: leave_def handleDisconnect_def removePlayer_def markPlayerDefeated_def
        advanceTurn_def checkVictory_def joined4_def demoPlayer_def Let_def)
  show ?thesis
    unfolding joined4_reached 3 by (simp add: lookupPlayer_def demoPlayer_def)
qed

section \<open>A move that never returns\<close>

lemma afterMove1_reached:
  "handleRequestAction joined4 (PlayerClient ''p1'') MOVE (Some (JNum 0, JNum 1)) ''o1''
     = Some (GAME_STATE_UPDATE, afterMove1)"
proof -
  have path: "isPathClear joined4 \<lparr> pos_x = 0, pos_y = 0 \<rparr> \<lparr> pos_x = 0, pos_y = 1 \<rparr> = Some (Inr True)"
    by (simp add: isPathClear_def Math_sign_def isPathClear_loop.simps [of _ _ _ _ 0 1]
        isOccupied_def getPlayerAt_def getObstacleAt_def playerAtPred_def blocked_def
        joined4_def demoPlayer_def)
  have who: "requireActivePlayer joined4 ''p1'' = Inr 0"
    by (simp add: requireActivePlayer_def joined4_def demoPlayer_def)
  have here: "position (players joined4 ! 0) = Some \<lparr> pos_x = 0, pos_y = 0 \<rparr>"
    by (simp add: joined4_def demoPlayer_def)
  have tgt: "ensureTargetValid joined4 (Some (JNum 0, JNum 1)) = Inr \<lparr> pos_x = 0, pos_y = 1 \<rparr>"
    by (simp add: ensureTargetValid_def joined4_def)
  have turn: "gameStatus joined4 = InProgress" "currentPlayerTurn joined4 = Some ''p1''"
    by (simp_all add: joined4_def)
  have move: "executeMove joined4 ''p1'' (Some (JNum 0, JNum 1)) =
      Some (Inr (advanceTurn (cleanupAfterAction
        (joined4 \<lparr> players := (players joined4)[0 := (players joined4 ! 0)
           \<lparr> position := Some \<lparr> pos_x = 0, pos_y = 1 \<rparr> \<rparr>] \<rparr>))))"
    by (simp add: executeMove_def who here tgt path isStraightLine_def distance_def
        MOVE_RANGE_def)
  have "advanceTurn (cleanupAfterAction
        (joined4 \<lparr> players := (players joined4)[0 := (players joined4 ! 0)
           \<lparr> position := Some \<lparr> pos_x = 0, pos_y = 1 \<rparr> \<rparr>] \<rparr>)) = afterMove1"
    by (simp add: cleanupAfterAction_def advanceTurn_def checkVictory_def markPlayerDefeated_def
        joined4_def afterMove1_def demoPlayer_def Let_def)
  with move turn show ?thesis
    by (simp add: handleRequestAction_def)
qed

lemma free_row: "x \<le> 7 \<Longrightarrow> isOccupied afterMove1 \<lparr> pos_x = x, pos_y = 0 \<rparr> = Inr False"
  by (simp add: isOccupied_def getPlayerAt_def getObstacleAt_def playerAtPred_def afterMove1_def demoPlayer_def)

lemma diverges_admissible: "option.admissible (\<lambda>f. \<forall>z. Q z \<longrightarrow> f z = None)"
proof (rule ccpo.admissibleI)
  fix A :: "('a \<Rightarrow> 'b option) set"
  assume all: "\<forall>f \<in> A. \<forall>z. Q z \<longrightarrow> f z = None"
  show "\<forall>z. Q z \<longrightarrow> fun_lub (flat_lub None) A z = None"
  proof (intro allI impI)
    fix z assume q: "Q z"
    have "{y. \<exists>f \<in> A. y = f z} \<subseteq> {None}"
    proof
      fix y assume "y \<in> {y. \<exists>f \<in> A. y = f z}"
      then obtain f where "f \<in> A" "y = f z" by auto
      with all q show "y \<in> {None}" by simp
    qed
    then have "flat_lub None {y. \<exists>f \<in> A. y = f z} = None"
      unfolding flat_lub_def by (simp only: if_True)
    then show "fun_lub (flat_lub None) A z = None"
      unfolding fun_lub_def .
  qed
qed

lemma loop_diverges:
  "\<forall>x \<le> 7. isPathClear_loop afterMove1 (- 1) 0 \<lparr> pos_x = 15 / 2, pos_y = 0 \<rparr> x 0 = None"
proof (rule isPathClear_loop.fixp_induct
    [where P = "\<lambda>f. \<forall>x \<le> 7. f afterMove1 (- 1) 0 \<lparr> pos_x = 15 / 2, pos_y = 0 \<rparr> x 0 = None"])
  show "option.admissible (\<lambda>f :: ((((game \<times> rat) \<times> rat) \<times> pos) \<times> rat) \<times> rat \<Rightarrow> (error + bool) option.
          \<forall>x \<le> 7.
          curry (curry (curry (curry (curry f)))) afterMove1 (- 1) 0
            \<lparr> pos_x = 15 / 2, pos_y = 0 \<rparr> x 0 = None)"
  proof -
    have "(\<lambda>f :: ((((game \<times> rat) \<times> rat) \<times> pos) \<times> rat) \<times> rat \<Rightarrow> (error + bool) option. \<forall>x \<le> 7.
              curry (curry (curry (curry (curry f)))) afterMove1 (- 1) 0
                \<lparr> pos_x = 15 / 2, pos_y = 0 \<rparr> x 0 = None)
          = (\<lambda>f. \<forall>z. (\<exists>x \<le> 7. z = (((((afterMove1, - 1), 0), \<lparr> pos_x = 15 / 2, pos_y = 0 \<rparr>), x), 0))
                     \<longrightarrow> f z = None)"
      by (rule ext) auto
    then show ?thesis
      by (simp only: diverges_admissible)
  qed
next
  show "\<forall>x \<le> 7. (\<lambda>st dx dy target x y. None) afterMove1 (- 1) 0 \<lparr> pos_x = 15 / 2, pos_y = 0 \<rparr> x 0 = None"
    by simp
next
  fix loop :: "game \<Rightarrow> rat \<Rightarrow> rat \<Rightarrow> pos \<Rightarrow> rat \<Rightarrow> rat \<Rightarrow> (error + bool) option"
  assume IH: "\<forall>x \<le> 7. loop afterMove1 (- 1) 0 \<lparr> pos_x = 15 / 2, pos_y = 0 \<rparr> x 0 = None"
  show "\<forall>x \<le> 7.
          (if x \<noteq> pos_x \<lparr> pos_x = 15 / 2, pos_y = 0 \<rparr> \<or> 0 \<noteq> pos_y \<lparr> pos_x = 15 / 2, pos_y = 0 \<rparr>
           then if isOccupied afterMove1 \<lparr>pos_x = x, pos_y = 0\<rparr> = Inr False
                then loop afterMove1 (- 1) 0 \<lparr> pos_x = 15 / 2, pos_y = 0 \<rparr> (x + - 1) (0 + 0)
                else Some (blocked (isOccupied afterMove1 \<lparr>pos_x = x, pos_y = 0\<rparr>))
           else Some (blocked (isOccupied afterMove1 \<lparr> pos_x = 15 / 2, pos_y = 0 \<rparr>))) = None"
  proof (intro allI impI)
    fix x :: rat assume x: "x \<le> 7"
    then have "x - 1 \<le> 7" by simp
    with IH have "loop afterMove1 (- 1) 0 \<lparr> pos_x = 15 / 2, pos_y = 0 \<rparr> (x - 1) 0 = None"
      by blast
    with x free_row [of x] show "(if x \<noteq> pos_x \<lparr> pos_x = 15 / 2, pos_y = 0 \<rparr> \<or> 0 \<noteq> pos_y \<lparr> pos_x = 15 / 2, pos_y = 0 \<rparr>
           then if isOccupied afterMove1 \<lparr>pos_x = x, pos_y = 0\<rparr> = Inr False
                then loop afterMove1 (- 1) 0 \<lparr> pos_x = 15 / 2, pos_y = 0 \<rparr> (x + - 1) (0 + 0)
                else Some (blocked (isOccupied afterMove1 \<lparr>pos_x = x, pos_y = 0\<rparr>))
           else Some (blocked (isOccupied afterMove1 \<lparr> pos_x = 15 / 2, pos_y = 0 \<rparr>))) = None"
      by simp
  qed
qed

text \<open>
  Claim C8 says that the spatial queries are total on every input that the input
  validation accepts (coordinates of JavaScript number type within the grid bounds) and
  that the core always answers. The code does not keep this: \<open>ensureTargetValid\<close>
  accepts a number that is not an integer, and the loop of \<open>isPathClear\<close> then steps by
  whole cells past a target it can never equal. In \<open>afterMove1\<close>, reached from the four
  joins by one legal move, the second player at \<open>(8, 0)\<close> asks to move to \<open>(7.5, 0)\<close>:
  the target is in bounds, on a line and at distance \<open>0.5\<close>, the row to the left is
  free, and neither \<open>isPathClear\<close> nor the request returns. (In the double arithmetic
  of the source \<open>x\<close> stops changing at \<open>-2^53\<close>, which is as far from \<open>7.5\<close>.)
\<close>

theorem fractional_move_never_returns:
  "ensureTargetValid afterMove1 (Some (JNum (15 / 2), JNum 0)) = Inr \<lparr> pos_x = 15 / 2, pos_y = 0 \<rparr>
   \<and> isPathClear afterMove1 \<lparr> pos_x = 8, pos_y = 0 \<rparr> \<lparr> pos_x = 15 / 2, pos_y = 0 \<rparr> = None
   \<and> handleRequestAction afterMove1 (PlayerClient ''p2'') MOVE (Some (JNum (15 / 2), JNum 0)) ''o1'' = None"
proof -
  have loop: "isPathClear_loop afterMove1 (- 1) 0 \<lparr> pos_x = 15 / 2, pos_y = 0 \<rparr> 7 0 = None"
    using loop_diverges by simp
  have who: "requireActivePlayer afterMove1 ''p2'' = Inr 1"
    by (simp add: requireActivePlayer_def afterMove1_def demoPlayer_def)
  have here: "position (players afterMove1 ! Suc 0) = Some \<lparr> pos_x = 8, pos_y = 0 \<rparr>"
    by (simp add: afterMove1_def demoPlayer_def)
  have tgt: "ensureTargetValid afterMove1 (Some (JNum (15 / 2), JNum 0))
               = Inr \<lparr> pos_x = 15 / 2, pos_y = 0 \<rparr>"
    by (simp add: ensureTargetValid_def afterMove1_def)
  have path: "isPathClear afterMove1 \<lparr> pos_x = 8, pos_y = 0 \<rparr> \<lparr> pos_x = 15 / 2, pos_y = 0 \<rparr> = None"
    using loop by (simp add: isPathClear_def Math_sign_def)
  have turn: "gameStatus afterMove1 = InProgress" "currentPlayerTurn afterMove1 = Some ''p2''"
    by (simp_all add: afterMove1_def)
  have "handleRequestAction afterMove1 (PlayerClient ''p2'') MOVE
          (Some (JNum (15 / 2), JNum 0)) ''o1'' = None"
    by (simp add: handleRequestAction_def executeMove_def who here tgt path turn
        isStraightLine_def distance_def MOVE_RANGE_def)
  with tgt path show ?thesis by simp
qed

text \<open>
  The other query has no such call: the loop of \<open>findFirstEntity\<close> leaves the attack
  range after two steps at most, so it returns on every start and target.
\<close>

lemma findFirstEntity_loop_step:
  assumes "\<exists>r. findFirstEntity_loop st start target dx dy (x + dx) (y + dy) = Some r"
  shows "\<exists>r. findFirstEntity_loop st start target dx dy x y = Some r"
  by (subst findFirstEntity_loop.simps) (simp only: assms if_split simp_thms option.simps split: if_splits)

lemma findFirstEntity_loop_far:
  assumes "ATTACK_RANGE < \<bar>x - pos_x start\<bar> + \<bar>y - pos_y start\<bar>"
  shows "findFirstEntity_loop st start target dx dy x y = Some (Inr None)"
proof -
  from assms have "\<not> (x \<ge> 0 \<and> y \<ge> 0 \<and> x < gridSize st \<and> y < gridSize st
          \<and> \<bar>x - pos_x start\<bar> + \<bar>y - pos_y start\<bar> \<le> ATTACK_RANGE)"
    by simp
  then show ?thesis
    by (subst findFirstEntity_loop.simps) (simp only: if_False)
qed


lemma findFirstEntity_returns: "\<exists>r. findFirstEntity st start target = Some r"
proof -
  define dx where "dx = Math_sign (pos_x target - pos_x start)"
  define dy where "dy = Math_sign (pos_y target - pos_y start)"
  have run: "findFirstEntity st start target =
      findFirstEntity_loop st start target dx dy (pos_x start + dx) (pos_y start + dy)"
    by (simp add: findFirstEntity_def dx_def dy_def Let_def)
  show ?thesis
  proof (cases "dx = 0 \<and> dy = 0")
    case True
    then have same: "pos_x target = pos_x start" "pos_y target = pos_y start"
      by (auto simp: dx_def dy_def Math_sign_def split: if_splits)
    have "\<exists>r. findFirstEntity_loop st start target 0 0 (pos_x start) (pos_y start) = Some r"
      by (subst findFirstEntity_loop.simps) (simp add: same)
    with True show ?thesis by (simp add: run)
  next
    case False
    have "\<bar>dx\<bar> = 0 \<or> \<bar>dx\<bar> = 1" "\<bar>dy\<bar> = 0 \<or> \<bar>dy\<bar> = 1"
      by (simp_all add: dx_def dy_def Math_sign_def)
    with False have one: "1 \<le> \<bar>dx\<bar> + \<bar>dy\<bar>" by auto
    have "\<bar>(pos_x start + dx + dx + dx) - pos_x start\<bar> = 3 * \<bar>dx\<bar>"
      "\<bar>(pos_y start + dy + dy + dy) - pos_y start\<bar> = 3 * \<bar>dy\<bar>"
      by simp_all
    with one have "ATTACK_RANGE < \<bar>(pos_x start + dx + dx + dx) - pos_x start\<bar>
        + \<bar>(pos_y start + dy + dy + dy) - pos_y start\<bar>"
      by (simp add: ATTACK_RANGE_def)
    then have "\<exists>r. findFirstEntity_loop st start target dx dy
        (pos_x start + dx + dx + dx) (pos_y start + dy + dy + dy) = Some r"
      by (simp only: findFirstEntity_loop_far) blast
    then have "\<exists>r. findFirstEntity_loop st start target dx dy
        (pos_x start + dx + dx) (pos_y start + dy + dy) = Some r"
      by (rule findFirstEntity_loop_step)
    then have "\<exists>r. findFirstEntity_loop st start target dx dy
        (pos_x start + dx) (pos_y start + dy) = Some r"
      by (rule findFirstEntity_loop_step)
    then show ?thesis by (simp only: run)
  qed
qed

section \<open>Order of the legality checks\<close>

text \<open>
  Claim C6 as stated says that every action checks bounds, then geometry and range, then
  occupancy and stock, and in particular that PlaceObstacle reports an adjacency reason
  before a stock reason. \<open>executePlaceObstacle\<close> reads the stock before the adjacency:
  the first player of \<open>stockSpent\<close>, whose stock is \<open>0\<close>, asks for an obstacle on the
  cell \<open>(5, 5)\<close>, which is in bounds and not adjacent to its cell \<open>(0, 0)\<close>, and the
  reason is the stock, not the adjacency.
\<close>

theorem place_reports_stock_before_adjacency:
  "position (players stockSpent ! 0) = Some \<lparr> pos_x = 0, pos_y = 0 \<rparr>
   \<and> \<not> isAdjacent \<lparr> pos_x = 0, pos_y = 0 \<rparr> \<lparr> pos_x = 5, pos_y = 5 \<rparr>
   \<and> executePlaceObstacle stockSpent ''p1'' (Some (JNum 5, JNum 5)) ''o4'' = Inl NoStock
   \<and> handleRequestAction stockSpent (PlayerClient ''p1'') PLACE_OBSTACLE (Some (JNum 5, JNum 5)) ''o4''
       = Some (ACTION_INVALID NoStock, stockSpent)"
proof -
  have p: "executePlaceObstacle stockSpent ''p1'' (Some (JNum 5, JNum 5)) ''o4'' = Inl NoStock"
    by (simp add: executePlaceObstacle_def requireActivePlayer_def ensureTargetValid_def
        stockSpent_def demoPlayer_def)
  have "gameStatus stockSpent = InProgress" "currentPlayerTurn stockSpent = Some ''p1''"
    "position (players stockSpent ! 0) = Some \<lparr> pos_x = 0, pos_y = 0 \<rparr>"
    by (simp_all add: stockSpent_def demoPlayer_def)
  with p show ?thesis
    by (simp add: handleRequestAction_def isAdjacent_def)
qed

text \<open>
  Claim C6, amended. In every action the legality checks run in a fixed order, which
  determines the reason of an illegal request. For an acting player that passed the
  shared checks and has a position: Move checks the bounds, then the straight line,
  then the range, then the path; Attack checks the bounds, then the straight line, then
  the range, then that the ray holds an entity; PlaceObstacle checks the bounds, then
  the stock, then the adjacency, then the occupancy. So PlaceObstacle reports an
  out-of-bounds reason before a stock reason, a stock reason before an adjacency reason,
  and an adjacency reason before an occupancy reason.
\<close>

theorem legality_check_order:
  assumes "requireActivePlayer st playerId = Inr i"
    and "position (players st ! i) = Some here"
  shows "(ensureTargetValid st target = Inl OutOfBounds \<longrightarrow>
            executeMove st playerId target = Some (Inl OutOfBounds)
          \<and> executeAttack st playerId target = Some (Inl OutOfBounds)
          \<and> executePlaceObstacle st playerId target newId = Inl OutOfBounds)
       \<and> (ensureTargetValid st target = Inr tgt \<longrightarrow>
            (\<not> isStraightLine here tgt \<longrightarrow>
                executeMove st playerId target = Some (Inl MoveNotStraight)
              \<and> executeAttack st playerId target = Some (Inl AttackNotStraight))
          \<and> (isStraightLine here tgt \<and> (distance here tgt = 0 \<or> distance here tgt > MOVE_RANGE) \<longrightarrow>
                executeMove st playerId target = Some (Inl MoveTooFar))
          \<and> (isStraightLine here tgt \<and> (distance here tgt = 0 \<or> distance here tgt > ATTACK_RANGE) \<longrightarrow>
                executeAttack st playerId target = Some (Inl AttackTooFar))
          \<and> (isStraightLine here tgt \<and> distance here tgt \<noteq> 0 \<and> distance here tgt \<le> MOVE_RANGE
               \<and> isPathClear st here tgt = Some (Inr False) \<longrightarrow>
                executeMove st playerId target = Some (Inl PathBlocked))
          \<and> (isStraightLine here tgt \<and> distance here tgt \<noteq> 0 \<and> distance here tgt \<le> ATTACK_RANGE
               \<and> findFirstEntity st here tgt = Some (Inr None) \<longrightarrow>
                executeAttack st playerId target = Some (Inl NoTarget))
          \<and> (obstaclesRestants (players st ! i) \<le> 0 \<longrightarrow>
                executePlaceObstacle st playerId target newId = Inl NoStock)
          \<and> (obstaclesRestants (players st ! i) > 0 \<and> \<not> isAdjacent here tgt \<longrightarrow>
                executePlaceObstacle st playerId target newId = Inl NotAdjacent)
          \<and> (obstaclesRestants (players st ! i) > 0 \<and> isAdjacent here tgt
               \<and> isOccupied st tgt = Inr True \<longrightarrow>
                executePlaceObstacle st playerId target newId = Inl CellOccupied))"
  using assms
  by (simp add: executeMove_def executeAttack_def executePlaceObstacle_def)

theorem legality_check_order_witness:
  "requireActivePlayer stockSpent ''p1'' = Inr 0
   \<and> position (players stockSpent ! 0) = Some \<lparr> pos_x = 0, pos_y = 0 \<rparr>
   \<and> ensureTargetValid stockSpent (Some (JNum 9, JNum 5)) = Inl OutOfBounds
   \<and> executePlaceObstacle stockSpent ''p1'' (Some (JNum 9, JNum 5)) ''o4'' = Inl OutOfBounds
   \<and> executeMove stockSpent ''p1'' (Some (JNum 9, JNum 5)) = Some (Inl OutOfBounds)
   \<and> ensureTargetValid stockSpent (Some (JNum 5, JNum 5)) = Inr \<lparr> pos_x = 5, pos_y = 5 \<rparr>
   \<and> obstaclesRestants (players stockSpent ! 0) \<le> 0
   \<and> executePlaceObstacle stockSpent ''p1'' (Some (JNum 5, JNum 5)) ''o4'' = Inl NoStock
   \<and> \<not> isStraightLine \<lparr> pos_x = 0, pos_y = 0 \<rparr> \<lparr> pos_x = 5, pos_y = 5 \<rparr>
   \<and> executeMove stockSpent ''p1'' (Some (JNum 5, JNum 5)) = Some (Inl MoveNotStraight)
   \<and> executeAttack stockSpent ''p1'' (Some (JNum 5, JNum 5)) = Some (Inl AttackNotStraight)
   \<and> requireActivePlayer joined4 ''p1'' = Inr 0
   \<and> ensureTargetValid joined4 (Some (JNum 5, JNum 5)) = Inr \<lparr> pos_x = 5, pos_y = 5 \<rparr>
   \<and> obstaclesRestants (players joined4 ! 0) > 0
   \<and> \<not> isAdjacent \<lparr> pos_x = 0, pos_y = 0 \<rparr> \<lparr> pos_x = 5, pos_y = 5 \<rparr>
   \<and> executePlaceObstacle joined4 ''p1'' (Some (JNum 5, JNum 5)) ''o4'' = Inl NotAdjacent"
proof -
  have a: "requireActivePlayer stockSpent ''p1'' = Inr 0"
    "position (players stockSpent ! 0) = Some \<lparr> pos_x = 0, pos_y = 0 \<rparr>"
    by (simp_all add: requireActivePlayer_def stockSpent_def demoPlayer_def)
  have b: "requireActivePlayer joined4 ''p1'' = Inr 0"
    "position (players joined4 ! 0) = Some \<lparr> pos_x = 0, pos_y = 0 \<rparr>"
    by (simp_all add: requireActivePlayer_def joined4_def demoPlayer_def)
  have c: "ensureTargetValid stockSpent (Some (JNum 9, JNum 5)) = Inl OutOfBounds"
    "ensureTargetValid stockSpent (Some (JNum 5, JNum 5)) = Inr \<lparr> pos_x = 5, pos_y = 5 \<rparr>"
    "ensureTargetValid joined4 (Some (JNum 5, JNum 5)) = Inr \<lparr> pos_x = 5, pos_y = 5 \<rparr>"
    "obstaclesRestants (players stockSpent ! 0) \<le> 0"
    "obstaclesRestants (players joined4 ! 0) > 0"
    by (simp_all add: ensureTargetValid_def stockSpent_def joined4_def demoPlayer_def)
  show ?thesis
    using a b c
      legality_check_order [OF a, of "Some (JNum 9, JNum 5)" "''o4''" "\<lparr> pos_x = 5, pos_y = 5 \<rparr>"]
      legality_check_order [OF a, of "Some (JNum 5, JNum 5)" "''o4''" "\<lparr> pos_x = 5, pos_y = 5 \<rparr>"]
      legality_check_order [OF b, of "Some (JNum 5, JNum 5)" "''o4''" "\<lparr> pos_x = 5, pos_y = 5 \<rparr>"]
    by (simp add: isStraightLine_def isAdjacent_def)
qed


section \<open>Occupancy and the path scan on well-formed states\<close>

lemma pos_eq: "(q = (c :: pos)) = (pos_x q = pos_x c \<and> pos_y q = pos_y c)"
  by auto

lemma findIndexE_total:
  "\<forall>x \<in> set xs. f x = Inr (P x) \<Longrightarrow> findIndexE f xs = Inr (findIndex P xs)"
  by (induction xs) auto

lemma getPlayerAt_wf:
  assumes "wellFormed st"
  shows "getPlayerAt st c
           = Inr (findIndex (\<lambda>p. status p = Active \<and> position p = Some c) (players st))"
proof -
  have "\<forall>p \<in> set (players st).
          playerAtPred c p = Inr (status p = Active \<and> position p = Some c)"
  proof
    fix p assume p: "p \<in> set (players st)"
    show "playerAtPred c p = Inr (status p = Active \<and> position p = Some c)"
    proof (cases "status p = Active")
      case True
      with assms p obtain q where "position p = Some q"
        by (auto simp: wellFormed_def)
      with True show ?thesis
        by (simp add: playerAtPred_def pos_eq [of q c])
    next
      case False
      then show ?thesis by (simp add: playerAtPred_def)
    qed
  qed
  then show ?thesis
    unfolding getPlayerAt_def by (rule findIndexE_total)
qed

lemma getObstacleAt_eq:
  "getObstacleAt st c = findIndex (\<lambda>ob. o_position ob = c) (obstacles st)"
  by (simp add: getObstacleAt_def pos_eq)

lemma isOccupied_wf:
  assumes "wellFormed st"
  shows "isOccupied st c = Inr (occupiedCell st c)"
proof -
  have "occupiedCell st c =
          (findIndex (\<lambda>p. status p = Active \<and> position p = Some c) (players st) \<noteq> None
           \<or> findIndex (\<lambda>ob. o_position ob = c) (obstacles st) \<noteq> None)"
    by (simp add: occupiedCell_def findIndex_None)
  then show ?thesis
    by (simp add: isOccupied_def getPlayerAt_wf [OF assms] getObstacleAt_eq split: option.splits)
qed


lemma all_le_Suc_shift: "(\<forall>j \<le> Suc m. P j) = (P 0 \<and> (\<forall>j \<le> m. P (Suc j)))"
proof
  assume a: "\<forall>j \<le> Suc m. P j"
  then show "P 0 \<and> (\<forall>j \<le> m. P (Suc j))" by auto
next
  assume a: "P 0 \<and> (\<forall>j \<le> m. P (Suc j))"
  show "\<forall>j \<le> Suc m. P j"
  proof (intro allI impI)
    fix j assume "j \<le> Suc m"
    with a show "P j" by (cases j) auto
  qed
qed

lemma isPathClear_loop_steps:
  assumes wf: "wellFormed st" and d: "dx \<noteq> 0 \<or> dy \<noteq> 0"
  shows "isPathClear_loop st dx dy
           \<lparr> pos_x = x + of_nat m * dx, pos_y = y + of_nat m * dy \<rparr> x y
         = Some (Inr (\<forall>j \<le> m. \<not> occupiedCell st
                        \<lparr> pos_x = x + of_nat j * dx, pos_y = y + of_nat j * dy \<rparr>))"
proof (induction m arbitrary: x y)
  case 0
  show ?case
    by (subst isPathClear_loop.simps) (simp add: isOccupied_wf [OF wf] blocked_def)
next
  case (Suc m)
  have tgt: "\<lparr> pos_x = x + of_nat (Suc m) * dx, pos_y = y + of_nat (Suc m) * dy \<rparr>
             = \<lparr> pos_x = (x + dx) + of_nat m * dx, pos_y = (y + dy) + of_nat m * dy \<rparr>"
    by (simp add: algebra_simps)
  have away: "x \<noteq> x + of_nat (Suc m) * dx \<or> y \<noteq> y + of_nat (Suc m) * dy"
    using d by (simp del: of_nat_Suc)
  have shift: "\<And>j. \<lparr> pos_x = x + of_nat (Suc j) * dx, pos_y = y + of_nat (Suc j) * dy \<rparr>
             = \<lparr> pos_x = (x + dx) + of_nat j * dx, pos_y = (y + dy) + of_nat j * dy \<rparr>"
    by (simp add: algebra_simps)
  have here: "\<lparr> pos_x = x + of_nat 0 * dx, pos_y = y + of_nat 0 * dy \<rparr> = \<lparr> pos_x = x, pos_y = y \<rparr>"
    by simp
  show ?case
  proof (cases "occupiedCell st \<lparr> pos_x = x, pos_y = y \<rparr>")
    case True
    have "isPathClear_loop st dx dy
            \<lparr> pos_x = x + of_nat (Suc m) * dx, pos_y = y + of_nat (Suc m) * dy \<rparr> x y
          = Some (Inr False)"
      using away True
      by (subst isPathClear_loop.simps) (simp add: isOccupied_wf [OF wf] blocked_def del: of_nat_Suc)
    moreover have "\<not> (\<forall>j \<le> Suc m. \<not> occupiedCell st
                        \<lparr> pos_x = x + of_nat j * dx, pos_y = y + of_nat j * dy \<rparr>)"
      unfolding all_le_Suc_shift here using True by simp
    ultimately show ?thesis by simp
  next
    case False
    have "isPathClear_loop st dx dy
            \<lparr> pos_x = x + of_nat (Suc m) * dx, pos_y = y + of_nat (Suc m) * dy \<rparr> x y
          = isPathClear_loop st dx dy
            \<lparr> pos_x = x + of_nat (Suc m) * dx, pos_y = y + of_nat (Suc m) * dy \<rparr> (x + dx) (y + dy)"
      using away False
      by (subst isPathClear_loop.simps) (simp add: isOccupied_wf [OF wf] del: of_nat_Suc)
    also have "\<dots> = Some (Inr (\<forall>j \<le> m. \<not> occupiedCell st
                        \<lparr> pos_x = (x + dx) + of_nat j * dx, pos_y = (y + dy) + of_nat j * dy \<rparr>))"
      unfolding tgt by (rule Suc.IH)
    also have "(\<forall>j \<le> m. \<not> occupiedCell st
                        \<lparr> pos_x = (x + dx) + of_nat j * dx, pos_y = (y + dy) + of_nat j * dy \<rparr>)
           = (\<forall>j \<le> Suc m. \<not> occupiedCell st
                        \<lparr> pos_x = x + of_nat j * dx, pos_y = y + of_nat j * dy \<rparr>)"
      unfolding all_le_Suc_shift here shift using False by simp
    finally show ?thesis .
  qed
qed


lemma of_nat_floor_Ints:
  assumes "(r :: rat) \<in> \<int>" and "0 \<le> r"
  shows "of_nat (nat \<lfloor>r\<rfloor>) = r"
proof -
  from assms(1) obtain z where z: "r = of_int z" by (rule Ints_cases)
  with assms(2) have "0 \<le> z" by simp
  then show ?thesis by (simp add: z)
qed

lemma distance_Ints: "isCell a \<Longrightarrow> isCell b \<Longrightarrow> distance a b \<in> \<int>"
  by (simp add: isCell_def distance_def)

lemma distance_steps:
  assumes "isCell a" and "isCell b"
  shows "of_nat (nat \<lfloor>distance a b\<rfloor>) = distance a b"
  using distance_Ints [OF assms] by (rule of_nat_floor_Ints) (simp add: distance_def)

lemma abs_times_sign: "\<bar>r\<bar> * Math_sign (- r) = - r"
  by (simp add: Math_sign_def abs_if)

lemma straight_target:
  assumes "isCell a" and "isCell b" and "isStraightLine a b"
  shows "b = \<lparr> pos_x = pos_x a + of_nat (nat \<lfloor>distance a b\<rfloor>) * Math_sign (pos_x b - pos_x a),
              pos_y = pos_y a + of_nat (nat \<lfloor>distance a b\<rfloor>) * Math_sign (pos_y b - pos_y a) \<rparr>"
proof -
  from assms(3) consider "pos_x a = pos_x b" | "pos_y a = pos_y b"
    by (auto simp: isStraightLine_def)
  then show ?thesis
  proof cases
    case 1
    then have e: "of_nat (nat \<lfloor>distance a b\<rfloor>) = \<bar>pos_y a - pos_y b\<bar>"
      using distance_steps [OF assms(1,2)] by (simp add: distance_def)
    have sx: "Math_sign (pos_x b - pos_x a) = 0"
      using 1 by (simp add: Math_sign_def)
    have sy: "\<bar>pos_y a - pos_y b\<bar> * Math_sign (pos_y b - pos_y a) = pos_y b - pos_y a"
      using abs_times_sign [of "pos_y a - pos_y b"] by simp
    show ?thesis
      unfolding e sx sy using 1 by (simp add: pos_eq)
  next
    case 2
    then have e: "of_nat (nat \<lfloor>distance a b\<rfloor>) = \<bar>pos_x a - pos_x b\<bar>"
      using distance_steps [OF assms(1,2)] by (simp add: distance_def)
    have sy: "Math_sign (pos_y b - pos_y a) = 0"
      using 2 by (simp add: Math_sign_def)
    have sx: "\<bar>pos_x a - pos_x b\<bar> * Math_sign (pos_x b - pos_x a) = pos_x b - pos_x a"
      using abs_times_sign [of "pos_x a - pos_x b"] by simp
    show ?thesis
      unfolding e sx sy using 2 by (simp add: pos_eq)
  qed
qed

lemma isPathClear_cells:
  assumes wf: "wellFormed st" and a: "isCell a" and b: "isCell b"
    and line: "isStraightLine a b" and far: "distance a b \<noteq> 0"
  shows "isPathClear st a b = Some (Inr (\<forall>c \<in> set (pathCells a b). \<not> occupiedCell st c))"
proof -
  define dx where "dx = Math_sign (pos_x b - pos_x a)"
  define dy where "dy = Math_sign (pos_y b - pos_y a)"
  define n where "n = nat \<lfloor>distance a b\<rfloor>"
  from far distance_steps [OF a b] have "n \<noteq> 0"
    by (auto simp: n_def)
  then obtain m where m: "n = Suc m" by (cases n) auto
  from far have "pos_x a \<noteq> pos_x b \<or> pos_y a \<noteq> pos_y b"
    by (auto simp: distance_def)
  then have d: "dx \<noteq> 0 \<or> dy \<noteq> 0"
    by (auto simp: dx_def dy_def Math_sign_def)
  have tgt: "b = \<lparr> pos_x = (pos_x a + dx) + of_nat m * dx, pos_y = (pos_y a + dy) + of_nat m * dy \<rparr>"
    using straight_target [OF a b line] m
    by (simp add: dx_def dy_def n_def algebra_simps)
  have "isPathClear st a b = isPathClear_loop st dx dy b (pos_x a + dx) (pos_y a + dy)"
    by (simp add: isPathClear_def dx_def dy_def Let_def)
  also have "\<dots> = isPathClear_loop st dx dy
      \<lparr> pos_x = (pos_x a + dx) + of_nat m * dx, pos_y = (pos_y a + dy) + of_nat m * dy \<rparr>
      (pos_x a + dx) (pos_y a + dy)"
    using tgt by simp
  also have "\<dots> = Some (Inr (\<forall>j \<le> m. \<not> occupiedCell st
      \<lparr> pos_x = (pos_x a + dx) + of_nat j * dx, pos_y = (pos_y a + dy) + of_nat j * dy \<rparr>))"
    by (rule isPathClear_loop_steps [OF wf d])
  also have "(\<forall>j \<le> m. \<not> occupiedCell st
      \<lparr> pos_x = (pos_x a + dx) + of_nat j * dx, pos_y = (pos_y a + dy) + of_nat j * dy \<rparr>)
      = (\<forall>c \<in> set (pathCells a b). \<not> occupiedCell st c)"
  proof -
    have "set (pathCells a b) =
        (\<lambda>j. \<lparr> pos_x = (pos_x a + dx) + of_nat j * dx, pos_y = (pos_y a + dy) + of_nat j * dy \<rparr>)
          ` {j. j \<le> m}"
    proof -
      have "[1 ..< Suc (Suc m)] = map Suc [0 ..< Suc m]"
        by (simp only: map_Suc_upt One_nat_def)
      then have "pathCells a b =
          map (\<lambda>j. \<lparr> pos_x = (pos_x a + dx) + of_nat j * dx,
                     pos_y = (pos_y a + dy) + of_nat j * dy \<rparr>) [0 ..< Suc m]"
        by (simp add: pathCells_def n_def [symmetric] m dx_def dy_def algebra_simps comp_def
            del: upt_Suc)
      moreover have "set [0 ..< Suc m] = {j. j \<le> m}" by auto
      ultimately show ?thesis by (simp only: set_map)
    qed
    then show ?thesis by auto
  qed
  finally show ?thesis .
qed


lemma markPlayerDefeated_nth:
  assumes "p_id (players s ! i) \<noteq> playerId"
  shows "players (markPlayerDefeated s playerId) ! i = players s ! i"
proof (cases "findIndex (\<lambda>p. p_id p = playerId) (players s)")
  case None
  then show ?thesis by (simp add: markPlayerDefeated_def)
next
  case (Some k)
  from findIndex_Some [OF Some] assms have "k \<noteq> i" by auto
  with Some show ?thesis by (simp add: markPlayerDefeated_def)
qed

lemma markPlayerDefeated_frame:
  "obstacles (markPlayerDefeated s playerId) = obstacles s"
  "gameStatus (markPlayerDefeated s playerId) = gameStatus s"
  "currentPlayerTurn (markPlayerDefeated s playerId) = currentPlayerTurn s"
  "gridSize (markPlayerDefeated s playerId) = gridSize s"
  "length (players (markPlayerDefeated s playerId)) = length (players s)"
  by (simp_all add: markPlayerDefeated_def split: option.splits)

lemma markPlayerDefeated_pdv:
  "map pdv (players (markPlayerDefeated s playerId)) = map pdv (players s)"
  by (auto simp: markPlayerDefeated_def map_update list_update_same_conv
      split: option.splits dest!: findIndex_Some)

lemma defeat_fold_nth:
  assumes "\<forall>p \<in> set ps. pdv p \<le> 0 \<longrightarrow> p_id p \<noteq> a"
    and "p_id (players s ! i) = a"
  shows "players (fold (\<lambda>p s. if pdv p \<le> 0 then markPlayerDefeated s (p_id p) else s) ps s) ! i
           = players s ! i"
  using assms
proof (induction ps arbitrary: s)
  case Nil
  then show ?case by simp
next
  case (Cons p ps)
  show ?case
  proof (cases "pdv p \<le> 0")
    case True
    with Cons.prems have ne: "p_id (players s ! i) \<noteq> p_id p" by auto
    have same: "players (markPlayerDefeated s (p_id p)) ! i = players s ! i"
      by (rule markPlayerDefeated_nth [OF ne])
    from Cons.prems have "\<forall>q \<in> set ps. pdv q \<le> 0 \<longrightarrow> p_id q \<noteq> a" by simp
    from Cons.IH [OF this, of "markPlayerDefeated s (p_id p)"] same Cons.prems(2) True
    show ?thesis by simp
  next
    case False
    from Cons.prems have "\<forall>q \<in> set ps. pdv q \<le> 0 \<longrightarrow> p_id q \<noteq> a" by simp
    from Cons.IH [OF this Cons.prems(2)] False show ?thesis by simp
  qed
qed

lemma defeat_fold_frame:
  "obstacles (fold (\<lambda>p s. if pdv p \<le> 0 then markPlayerDefeated s (p_id p) else s) ps s) = obstacles s
   \<and> length (players (fold (\<lambda>p s. if pdv p \<le> 0 then markPlayerDefeated s (p_id p) else s) ps s))
       = length (players s)
   \<and> map pdv (players (fold (\<lambda>p s. if pdv p \<le> 0 then markPlayerDefeated s (p_id p) else s) ps s))
       = map pdv (players s)"
  by (induction ps arbitrary: s) (simp_all add: markPlayerDefeated_frame markPlayerDefeated_pdv)

lemma checkVictory_frame:
  "players (checkVictory s) = players s" "obstacles (checkVictory s) = obstacles s"
  by (simp_all add: checkVictory_def Let_def)

lemma advanceTurn_frame:
  "players (advanceTurn s) = players s" "obstacles (advanceTurn s) = obstacles s"
  by (simp_all add: advanceTurn_def Let_def checkVictory_frame)

lemma cleanupAfterAction_nth:
  assumes "distinct (map p_id (players s))" and "i < length (players s)"
    and "0 < pdv (players s ! i)"
  shows "players (cleanupAfterAction s) ! i = players s ! i"
proof -
  have "\<forall>p \<in> set (players s). pdv p \<le> 0 \<longrightarrow> p_id p \<noteq> p_id (players s ! i)"
  proof (intro ballI impI)
    fix p assume p: "p \<in> set (players s)" "pdv p \<le> 0"
    show "p_id p \<noteq> p_id (players s ! i)"
    proof
      assume "p_id p = p_id (players s ! i)"
      moreover from assms(2) have "players s ! i \<in> set (players s)" by simp
      ultimately have "p = players s ! i"
        using assms(1) p(1) by (meson distinct_map inj_onD)
      with p(2) assms(3) show False by simp
    qed
  qed
  then have "players (fold (\<lambda>p s. if pdv p \<le> 0 then markPlayerDefeated s (p_id p) else s)
               (players s) (s \<lparr> obstacles := filter (\<lambda>ob. o_pdv ob > 0) (obstacles s) \<rparr>)) ! i
             = players s ! i"
    using defeat_fold_nth [of "players s" "p_id (players s ! i)"
        "s \<lparr> obstacles := filter (\<lambda>ob. o_pdv ob > 0) (obstacles s) \<rparr>" i]
    by simp
  then show ?thesis
    by (simp add: cleanupAfterAction_def Let_def checkVictory_frame)
qed


text \<open>
  When the scan of \<open>isPathClear\<close> starts on integers and answers that the path is
  clear, it has met the target, so the target is a cell.
\<close>

lemma isPathClear_loop_reaches:
  "\<forall>st dx dy target x y. isPathClear_loop st dx dy target x y = Some (Inr True)
      \<longrightarrow> x \<in> \<int> \<and> y \<in> \<int> \<and> dx \<in> \<int> \<and> dy \<in> \<int> \<longrightarrow> isCell target"
proof (rule isPathClear_loop.fixp_induct
    [where P = "\<lambda>f. \<forall>st dx dy target x y. f st dx dy target x y = Some (Inr True)
      \<longrightarrow> x \<in> \<int> \<and> y \<in> \<int> \<and> dx \<in> \<int> \<and> dy \<in> \<int> \<longrightarrow> isCell target"])
  show "option.admissible (\<lambda>f :: ((((game \<times> rat) \<times> rat) \<times> pos) \<times> rat) \<times> rat \<Rightarrow> (error + bool) option.
          \<forall>st dx dy target x y.
            curry (curry (curry (curry (curry f)))) st dx dy target x y = Some (Inr True)
            \<longrightarrow> x \<in> \<int> \<and> y \<in> \<int> \<and> dx \<in> \<int> \<and> dy \<in> \<int> \<longrightarrow> isCell target)"
  proof -
    have "(\<lambda>f :: ((((game \<times> rat) \<times> rat) \<times> pos) \<times> rat) \<times> rat \<Rightarrow> (error + bool) option.
          \<forall>st dx dy target x y.
            curry (curry (curry (curry (curry f)))) st dx dy target x y = Some (Inr True)
            \<longrightarrow> x \<in> \<int> \<and> y \<in> \<int> \<and> dx \<in> \<int> \<and> dy \<in> \<int> \<longrightarrow> isCell target)
       = (\<lambda>f. \<forall>z r. f z = Some r \<longrightarrow>
            (case z of (((((st, dx), dy), target), x), y) \<Rightarrow>
               r = Inr True \<longrightarrow> x \<in> \<int> \<and> y \<in> \<int> \<and> dx \<in> \<int> \<and> dy \<in> \<int> \<longrightarrow> isCell target))"
      by (rule ext) auto
    then show ?thesis
      by (simp only: option_admissible)
  qed
next
  show "\<forall>st dx dy target x y. (\<lambda>st dx dy target x y. None) st dx dy target x y = Some (Inr True)
      \<longrightarrow> x \<in> \<int> \<and> y \<in> \<int> \<and> dx \<in> \<int> \<and> dy \<in> \<int> \<longrightarrow> isCell target"
    by simp
next
  fix loop :: "game \<Rightarrow> rat \<Rightarrow> rat \<Rightarrow> pos \<Rightarrow> rat \<Rightarrow> rat \<Rightarrow> (error + bool) option"
  assume IH: "\<forall>st dx dy target x y. loop st dx dy target x y = Some (Inr True)
      \<longrightarrow> x \<in> \<int> \<and> y \<in> \<int> \<and> dx \<in> \<int> \<and> dy \<in> \<int> \<longrightarrow> isCell target"
  show "\<forall>st dx dy target x y.
          (if x \<noteq> pos_x target \<or> y \<noteq> pos_y target
           then if isOccupied st \<lparr>pos_x = x, pos_y = y\<rparr> = Inr False
                then loop st dx dy target (x + dx) (y + dy)
                else Some (blocked (isOccupied st \<lparr>pos_x = x, pos_y = y\<rparr>))
           else Some (blocked (isOccupied st target))) = Some (Inr True)
      \<longrightarrow> x \<in> \<int> \<and> y \<in> \<int> \<and> dx \<in> \<int> \<and> dy \<in> \<int> \<longrightarrow> isCell target"
  proof (intro allI impI)
    fix st dx dy target x y
    assume body: "(if x \<noteq> pos_x target \<or> y \<noteq> pos_y target
           then if isOccupied st \<lparr>pos_x = x, pos_y = y\<rparr> = Inr False
                then loop st dx dy target (x + dx) (y + dy)
                else Some (blocked (isOccupied st \<lparr>pos_x = x, pos_y = y\<rparr>))
           else Some (blocked (isOccupied st target))) = Some (Inr True)"
      and ints: "x \<in> \<int> \<and> y \<in> \<int> \<and> dx \<in> \<int> \<and> dy \<in> \<int>"
    show "isCell target"
    proof (cases "x \<noteq> pos_x target \<or> y \<noteq> pos_y target")
      case False
      with ints show ?thesis by (simp add: isCell_def)
    next
      case True
      show ?thesis
      proof (cases "isOccupied st \<lparr>pos_x = x, pos_y = y\<rparr> = Inr False")
        case occ: True
        with True body have "loop st dx dy target (x + dx) (y + dy) = Some (Inr True)" by simp
        moreover from ints have "x + dx \<in> \<int> \<and> y + dy \<in> \<int> \<and> dx \<in> \<int> \<and> dy \<in> \<int>" by simp
        ultimately show ?thesis using IH by blast
      next
        case occ: False
        with True body have "blocked (isOccupied st \<lparr>pos_x = x, pos_y = y\<rparr>) = Inr True" by simp
        with occ show ?thesis
          by (cases "isOccupied st \<lparr>pos_x = x, pos_y = y\<rparr>") (auto simp: blocked_def)
      qed
    qed
  qed
qed

lemma Math_sign_Ints: "Math_sign r \<in> \<int>"
  by (simp add: Math_sign_def)

lemma isPathClear_cell:
  assumes "isPathClear st here tgt = Some (Inr True)" and "isCell here"
  shows "isCell tgt"
proof -
  from assms(2) have "pos_x here + Math_sign (pos_x tgt - pos_x here) \<in> \<int>
      \<and> pos_y here + Math_sign (pos_y tgt - pos_y here) \<in> \<int>
      \<and> Math_sign (pos_x tgt - pos_x here) \<in> \<int> \<and> Math_sign (pos_y tgt - pos_y here) \<in> \<int>"
    by (simp add: isCell_def Math_sign_Ints)
  moreover from assms(1) have "isPathClear_loop st (Math_sign (pos_x tgt - pos_x here))
      (Math_sign (pos_y tgt - pos_y here)) tgt
      (pos_x here + Math_sign (pos_x tgt - pos_x here))
      (pos_y here + Math_sign (pos_y tgt - pos_y here)) = Some (Inr True)"
    by (simp add: isPathClear_def Let_def)
  ultimately show ?thesis
    using isPathClear_loop_reaches by blast
qed

lemma half_not_Ints: "(1 / 2 :: rat) \<notin> \<int>"
proof
  assume "(1 / 2 :: rat) \<in> \<int>"
  then obtain n :: int where "(1 / 2 :: rat) = of_int n" by (rule Ints_cases)
  then have "(of_int (2 * n) :: rat) = of_int 1" by simp
  then have "2 * n = 1" by (simp only: of_int_eq_iff)
  then show False by presburger
qed

section \<open>Move legality\<close>

lemma requireActivePlayer_Inr:
  assumes "requireActivePlayer st playerId = Inr i"
  shows "i < length (players st) \<and> status (players st ! i) = Active
         \<and> p_id (players st ! i) = playerId"
proof (cases "findIndex (\<lambda>p. p_id p = playerId) (players st)")
  case None
  with assms show ?thesis by (simp add: requireActivePlayer_def)
next
  case (Some k)
  with assms have "k = i" "status (players st ! i) = Active"
    by (auto simp: requireActivePlayer_def split: if_splits)
  with findIndex_Some [OF Some] show ?thesis by simp
qed

lemma wellFormed_acting:
  assumes "wellFormed st" and "requireActivePlayer st playerId = Inr i"
    and "position (players st ! i) = Some here"
  shows "isCell here \<and> inGrid st here \<and> 0 < pdv (players st ! i)"
proof -
  from requireActivePlayer_Inr [OF assms(2)]
  have "players st ! i \<in> set (players st)" "status (players st ! i) = Active" by simp_all
  with assms(1,3) show ?thesis by (auto simp: wellFormed_def)
qed

lemma executeMove_success:
  assumes wf: "wellFormed st" and who: "requireActivePlayer st playerId = Inr i"
    and here: "position (players st ! i) = Some here"
  shows "position (players (advanceTurn (cleanupAfterAction
            (st \<lparr> players := (players st)[i := (players st ! i) \<lparr> position := Some tgt \<rparr>] \<rparr>))) ! i)
         = Some tgt"
proof -
  define s where "s = st \<lparr> players := (players st)[i := (players st ! i) \<lparr> position := Some tgt \<rparr>] \<rparr>"
  from requireActivePlayer_Inr [OF who] have i: "i < length (players st)" by simp
  have ids: "map p_id (players s) = map p_id (players st)"
    using i by (simp add: s_def map_update list_update_same_conv)
  with wf have d: "distinct (map p_id (players s))" by (simp add: wellFormed_def)
  from i have len: "i < length (players s)" by (simp add: s_def)
  from wellFormed_acting [OF wf who here] i have hp: "0 < pdv (players s ! i)"
    by (simp add: s_def)
  have "players (advanceTurn (cleanupAfterAction s)) ! i = players s ! i"
    by (simp add: advanceTurn_frame cleanupAfterAction_nth [OF d len hp])
  with i show ?thesis by (simp add: s_def)
qed

text \<open>
  Claim C4, amended. For a Move of an acting player (one that
  passes \<open>requireActivePlayer\<close>) to an in-bounds target with integer coordinates: if
  the target is not on a straight line with the player's position the move fails; if
  the Manhattan distance is 0 or greater than 3 the move fails; if the path from the
  position (exclusive) to the target (inclusive) holds a cell occupied by an Active
  player or an obstacle the move fails; otherwise the move succeeds and the player's
  position becomes the target. The reasons are, in the order of the checks, the
  straight line, the range and the blocked path. A Move to an in-bounds target with a
  coordinate that is not an integer never succeeds.
\<close>

theorem move_legality:
  assumes wf: "wellFormed st" and who: "requireActivePlayer st playerId = Inr i"
    and here: "position (players st ! i) = Some here"
    and tgt: "ensureTargetValid st target = Inr tgt"
  shows "(isCell tgt \<longrightarrow>
         (\<not> isStraightLine here tgt \<longrightarrow>
            executeMove st playerId target = Some (Inl MoveNotStraight))
       \<and> (distance here tgt = 0 \<or> distance here tgt > 3 \<longrightarrow>
            executeMove st playerId target \<in> {Some (Inl MoveNotStraight), Some (Inl MoveTooFar)})
       \<and> ((\<exists>c \<in> set (pathCells here tgt). occupiedCell st c) \<longrightarrow>
            executeMove st playerId target
              \<in> {Some (Inl MoveNotStraight), Some (Inl MoveTooFar), Some (Inl PathBlocked)})
       \<and> (isStraightLine here tgt \<and> (distance here tgt = 0 \<or> distance here tgt > 3) \<longrightarrow>
            executeMove st playerId target = Some (Inl MoveTooFar))
       \<and> (isStraightLine here tgt \<and> distance here tgt \<noteq> 0 \<and> distance here tgt \<le> 3
           \<and> (\<exists>c \<in> set (pathCells here tgt). occupiedCell st c) \<longrightarrow>
            executeMove st playerId target = Some (Inl PathBlocked))
       \<and> (isStraightLine here tgt \<and> distance here tgt \<noteq> 0 \<and> distance here tgt \<le> 3
           \<and> (\<forall>c \<in> set (pathCells here tgt). \<not> occupiedCell st c) \<longrightarrow>
            (\<exists>st'. executeMove st playerId target = Some (Inr st')
                   \<and> position (players st' ! i) = Some tgt)))
       \<and> (\<not> isCell tgt \<longrightarrow> (\<forall>st'. executeMove st playerId target \<noteq> Some (Inr st')))"
proof -
  from wellFormed_acting [OF wf who here] have hc: "isCell here" by simp
  have bent: "\<not> isStraightLine here tgt \<Longrightarrow>
      executeMove st playerId target = Some (Inl MoveNotStraight)"
    by (simp add: executeMove_def who here tgt)
  have far: "isStraightLine here tgt \<Longrightarrow> distance here tgt = 0 \<or> distance here tgt > 3 \<Longrightarrow>
      executeMove st playerId target = Some (Inl MoveTooFar)"
    by (simp add: executeMove_def who here tgt MOVE_RANGE_def)
  define free where "free = (\<forall>c \<in> set (pathCells here tgt). \<not> occupiedCell st c)"
  have near: "executeMove st playerId target =
      (if free
       then Some (Inr (advanceTurn (cleanupAfterAction
              (st \<lparr> players := (players st)[i := (players st ! i) \<lparr> position := Some tgt \<rparr>] \<rparr>))))
       else Some (Inl PathBlocked))"
    if "isCell tgt" "isStraightLine here tgt" "distance here tgt \<noteq> 0" "distance here tgt \<le> 3"
  proof -
    have "isPathClear st here tgt = Some (Inr free)"
      unfolding free_def by (rule isPathClear_cells [OF wf hc that(1,2,3)])
    with that show ?thesis
      by (cases free) (simp_all add: executeMove_def who here tgt MOVE_RANGE_def)
  qed
  have fraction: "isCell tgt" if run: "executeMove st playerId target = Some (Inr st')" for st'
  proof -
    from run have "isPathClear st here tgt = Some (Inr True)"
      by (auto simp: executeMove_def who here tgt
          split: if_splits option.splits sum.splits bool.splits)
    then show ?thesis using hc by (rule isPathClear_cell)
  qed
  show ?thesis
  proof (intro conjI impI allI)
    assume "\<not> isStraightLine here tgt"
    then show "executeMove st playerId target = Some (Inl MoveNotStraight)" by (rule bent)
  next
    assume "distance here tgt = 0 \<or> distance here tgt > 3"
    then show "executeMove st playerId target
        \<in> {Some (Inl MoveNotStraight), Some (Inl MoveTooFar)}"
      using bent far by (cases "isStraightLine here tgt") auto
  next
    assume cell: "isCell tgt" and occ: "\<exists>c \<in> set (pathCells here tgt). occupiedCell st c"
    show "executeMove st playerId target
        \<in> {Some (Inl MoveNotStraight), Some (Inl MoveTooFar), Some (Inl PathBlocked)}"
    proof (cases "isStraightLine here tgt")
      case False
      then show ?thesis using bent by simp
    next
      case True
      show ?thesis
      proof (cases "distance here tgt = 0 \<or> distance here tgt > 3")
        case True
        with \<open>isStraightLine here tgt\<close> far show ?thesis by simp
      next
        case False
        with True occ near [OF cell] show ?thesis by (auto simp: free_def)
      qed
    qed
  next
    assume "isStraightLine here tgt \<and> (distance here tgt = 0 \<or> distance here tgt > 3)"
    then show "executeMove st playerId target = Some (Inl MoveTooFar)"
      using far by blast
  next
    assume cell: "isCell tgt"
      and "isStraightLine here tgt \<and> distance here tgt \<noteq> 0 \<and> distance here tgt \<le> 3
           \<and> (\<exists>c \<in> set (pathCells here tgt). occupiedCell st c)"
    with near [OF cell] show "executeMove st playerId target = Some (Inl PathBlocked)"
      by (auto simp: free_def)
  next
    assume cell: "isCell tgt"
      and ok: "isStraightLine here tgt \<and> distance here tgt \<noteq> 0 \<and> distance here tgt \<le> 3
           \<and> (\<forall>c \<in> set (pathCells here tgt). \<not> occupiedCell st c)"
    with near [OF cell] have "executeMove st playerId target =
        Some (Inr (advanceTurn (cleanupAfterAction
              (st \<lparr> players := (players st)[i := (players st ! i) \<lparr> position := Some tgt \<rparr>] \<rparr>))))"
      by (simp add: free_def)
    with executeMove_success [OF wf who here, of tgt]
    show "\<exists>st'. executeMove st playerId target = Some (Inr st')
                   \<and> position (players st' ! i) = Some tgt"
      by blast
  next
    fix st'
    assume "\<not> isCell tgt"
    then show "executeMove st playerId target \<noteq> Some (Inr st')"
      using fraction [of st'] by blast
  qed
qed

lemma wellFormed_joined4: "wellFormed joined4"
  by (simp add: wellFormed_def joined4_def demoPlayer_def isCell_def inGrid_def)

lemma wellFormed_stockSpent: "wellFormed stockSpent"
  by (simp add: wellFormed_def stockSpent_def demoPlayer_def isCell_def inGrid_def)

theorem move_legality_witness:
  "wellFormed joined4 \<and> requireActivePlayer joined4 ''p1'' = Inr 0
   \<and> position (players joined4 ! 0) = Some \<lparr> pos_x = 0, pos_y = 0 \<rparr>
   \<and> ensureTargetValid joined4 (Some (JNum 0, JNum 2)) = Inr \<lparr> pos_x = 0, pos_y = 2 \<rparr>
   \<and> isCell \<lparr> pos_x = 0, pos_y = 2 \<rparr>
   \<and> pathCells \<lparr> pos_x = 0, pos_y = 0 \<rparr> \<lparr> pos_x = 0, pos_y = 2 \<rparr>
       = [\<lparr> pos_x = 0, pos_y = 1 \<rparr>, \<lparr> pos_x = 0, pos_y = 2 \<rparr>]
   \<and> \<not> occupiedCell joined4 \<lparr> pos_x = 0, pos_y = 1 \<rparr>
   \<and> \<not> occupiedCell joined4 \<lparr> pos_x = 0, pos_y = 2 \<rparr>
   \<and> (\<exists>st'. executeMove joined4 ''p1'' (Some (JNum 0, JNum 2)) = Some (Inr st')
            \<and> position (players st' ! 0) = Some \<lparr> pos_x = 0, pos_y = 2 \<rparr>)
   \<and> wellFormed stockSpent \<and> requireActivePlayer stockSpent ''p1'' = Inr 0
   \<and> pathCells \<lparr> pos_x = 0, pos_y = 0 \<rparr> \<lparr> pos_x = 2, pos_y = 0 \<rparr>
       = [\<lparr> pos_x = 1, pos_y = 0 \<rparr>, \<lparr> pos_x = 2, pos_y = 0 \<rparr>]
   \<and> occupiedCell stockSpent \<lparr> pos_x = 1, pos_y = 0 \<rparr>
   \<and> executeMove stockSpent ''p1'' (Some (JNum 2, JNum 0)) = Some (Inl PathBlocked)
   \<and> executeMove stockSpent ''p1'' (Some (JNum 4, JNum 0)) = Some (Inl MoveTooFar)
   \<and> executeMove stockSpent ''p1'' (Some (JNum 2, JNum 2)) = Some (Inl MoveNotStraight)
   \<and> ensureTargetValid joined4 (Some (JNum (1 / 2), JNum 0)) = Inr \<lparr> pos_x = 1 / 2, pos_y = 0 \<rparr>
   \<and> \<not> isCell \<lparr> pos_x = 1 / 2, pos_y = 0 \<rparr>
   \<and> (\<forall>st'. executeMove joined4 ''p1'' (Some (JNum (1 / 2), JNum 0)) \<noteq> Some (Inr st'))"
proof -
  have who: "requireActivePlayer joined4 ''p1'' = Inr 0"
    by (simp add: requireActivePlayer_def joined4_def demoPlayer_def)
  have here: "position (players joined4 ! 0) = Some \<lparr> pos_x = 0, pos_y = 0 \<rparr>"
    by (simp add: joined4_def demoPlayer_def)
  have tgt: "ensureTargetValid joined4 (Some (JNum 0, JNum 2)) = Inr \<lparr> pos_x = 0, pos_y = 2 \<rparr>"
    by (simp add: ensureTargetValid_def joined4_def)
  have cell: "isCell \<lparr> pos_x = 0, pos_y = 2 \<rparr>"
    by (simp add: isCell_def)
  have cells: "pathCells \<lparr> pos_x = 0, pos_y = 0 \<rparr> \<lparr> pos_x = 0, pos_y = 2 \<rparr>
       = [\<lparr> pos_x = 0, pos_y = 1 \<rparr>, \<lparr> pos_x = 0, pos_y = 2 \<rparr>]"
    by (simp add: pathCells_def distance_def Math_sign_def upt_rec)
  have free: "\<not> occupiedCell joined4 \<lparr> pos_x = 0, pos_y = 1 \<rparr>"
    "\<not> occupiedCell joined4 \<lparr> pos_x = 0, pos_y = 2 \<rparr>"
    by (simp_all add: occupiedCell_def joined4_def demoPlayer_def)
  have geo: "isStraightLine \<lparr> pos_x = 0, pos_y = 0 \<rparr> \<lparr> pos_x = 0, pos_y = 2 \<rparr>"
    "distance \<lparr> pos_x = 0, pos_y = 0 \<rparr> \<lparr> pos_x = 0, pos_y = 2 \<rparr> = 2"
    by (simp_all add: isStraightLine_def distance_def)
  from move_legality [OF wellFormed_joined4 who here tgt] cell cells free geo
  have ok: "\<exists>st'. executeMove joined4 ''p1'' (Some (JNum 0, JNum 2)) = Some (Inr st')
            \<and> position (players st' ! 0) = Some \<lparr> pos_x = 0, pos_y = 2 \<rparr>"
    by simp
  have who': "requireActivePlayer stockSpent ''p1'' = Inr 0"
    by (simp add: requireActivePlayer_def stockSpent_def demoPlayer_def)
  have here': "position (players stockSpent ! 0) = Some \<lparr> pos_x = 0, pos_y = 0 \<rparr>"
    by (simp add: stockSpent_def demoPlayer_def)
  have tgt': "ensureTargetValid stockSpent (Some (JNum 2, JNum 0)) = Inr \<lparr> pos_x = 2, pos_y = 0 \<rparr>"
    "ensureTargetValid stockSpent (Some (JNum 4, JNum 0)) = Inr \<lparr> pos_x = 4, pos_y = 0 \<rparr>"
    "ensureTargetValid stockSpent (Some (JNum 2, JNum 2)) = Inr \<lparr> pos_x = 2, pos_y = 2 \<rparr>"
    by (simp_all add: ensureTargetValid_def stockSpent_def)
  have cell': "isCell \<lparr> pos_x = 2, pos_y = 0 \<rparr>" "isCell \<lparr> pos_x = 4, pos_y = 0 \<rparr>"
    "isCell \<lparr> pos_x = 2, pos_y = 2 \<rparr>"
    by (simp_all add: isCell_def)
  have cells': "pathCells \<lparr> pos_x = 0, pos_y = 0 \<rparr> \<lparr> pos_x = 2, pos_y = 0 \<rparr>
       = [\<lparr> pos_x = 1, pos_y = 0 \<rparr>, \<lparr> pos_x = 2, pos_y = 0 \<rparr>]"
    by (simp add: pathCells_def distance_def Math_sign_def upt_rec)
  have occ: "occupiedCell stockSpent \<lparr> pos_x = 1, pos_y = 0 \<rparr>"
    by (simp add: occupiedCell_def stockSpent_def)
  have geo': "isStraightLine \<lparr> pos_x = 0, pos_y = 0 \<rparr> \<lparr> pos_x = 2, pos_y = 0 \<rparr>"
    "distance \<lparr> pos_x = 0, pos_y = 0 \<rparr> \<lparr> pos_x = 2, pos_y = 0 \<rparr> = 2"
    "isStraightLine \<lparr> pos_x = 0, pos_y = 0 \<rparr> \<lparr> pos_x = 4, pos_y = 0 \<rparr>"
    "distance \<lparr> pos_x = 0, pos_y = 0 \<rparr> \<lparr> pos_x = 4, pos_y = 0 \<rparr> = 4"
    "\<not> isStraightLine \<lparr> pos_x = 0, pos_y = 0 \<rparr> \<lparr> pos_x = 2, pos_y = 2 \<rparr>"
    by (simp_all add: isStraightLine_def distance_def)
  from move_legality [OF wellFormed_stockSpent who' here' tgt'(1)] cell'(1) cells' occ geo'
  have blocked: "executeMove stockSpent ''p1'' (Some (JNum 2, JNum 0)) = Some (Inl PathBlocked)"
    by simp
  from move_legality [OF wellFormed_stockSpent who' here' tgt'(2)] cell'(2) geo'
  have far: "executeMove stockSpent ''p1'' (Some (JNum 4, JNum 0)) = Some (Inl MoveTooFar)"
    by simp
  from move_legality [OF wellFormed_stockSpent who' here' tgt'(3)] cell'(3) geo'
  have bent: "executeMove stockSpent ''p1'' (Some (JNum 2, JNum 2)) = Some (Inl MoveNotStraight)"
    by simp
  have tgt2: "ensureTargetValid joined4 (Some (JNum (1 / 2), JNum 0))
      = Inr \<lparr> pos_x = 1 / 2, pos_y = 0 \<rparr>"
    by (simp add: ensureTargetValid_def joined4_def)
  have cell2: "\<not> isCell \<lparr> pos_x = 1 / 2, pos_y = 0 \<rparr>"
    by (simp add: isCell_def half_not_Ints)
  from move_legality [OF wellFormed_joined4 who here tgt2] cell2
  have never: "\<forall>st'. executeMove joined4 ''p1'' (Some (JNum (1 / 2), JNum 0)) \<noteq> Some (Inr st')"
    by blast
  from wellFormed_joined4 who here tgt cell cells free ok wellFormed_stockSpent who' cells' occ
    blocked far bent tgt2 cell2 never
  show ?thesis by simp
qed

text \<open>
  Claim C4 as stated speaks of every in-bounds target. \<open>ensureTargetValid\<close> also
  accepts a target whose coordinates are not integers, and the scan of \<open>isPathClear\<close>
  then steps by whole cells past it. After the four joins the first player, at
  \<open>(0, 0)\<close> and holding the turn, asks to move to \<open>(0.5, 0)\<close>: the target is in
  bounds, on a line and at distance \<open>0.5\<close>, no cell lies between the player and the
  target and the target holds nobody, yet the scan runs along the row to the second
  player at \<open>(8, 0)\<close> and the move fails with the reason of the blocked path.
\<close>

lemma joined4_row:
  "isOccupied joined4 \<lparr> pos_x = x, pos_y = 0 \<rparr> = Inr (x = 0 \<or> x = 8)"
  by (cases "x = 0"; cases "x = 8")
    (simp_all add: isOccupied_def getPlayerAt_def getObstacleAt_def playerAtPred_def
      joined4_def demoPlayer_def)

lemma joined4_scan:
  "isPathClear_loop joined4 1 0 \<lparr> pos_x = 1 / 2, pos_y = 0 \<rparr> 1 0 = Some (Inr False)"
proof -
  let ?loop = "isPathClear_loop joined4 1 0 \<lparr> pos_x = 1 / 2, pos_y = 0 \<rparr>"
  have step: "?loop x 0 = ?loop (x + 1) 0" if "x \<noteq> 1 / 2" "x \<noteq> 0" "x \<noteq> 8" for x
    using that by (subst isPathClear_loop.simps) (simp add: joined4_row)
  have "?loop 8 0 = Some (Inr False)"
    by (subst isPathClear_loop.simps) (simp add: joined4_row blocked_def)
  moreover have "?loop 7 0 = ?loop 8 0" using step [of 7] by simp
  moreover have "?loop 6 0 = ?loop 7 0" using step [of 6] by simp
  moreover have "?loop 5 0 = ?loop 6 0" using step [of 5] by simp
  moreover have "?loop 4 0 = ?loop 5 0" using step [of 4] by simp
  moreover have "?loop 3 0 = ?loop 4 0" using step [of 3] by simp
  moreover have "?loop 2 0 = ?loop 3 0" using step [of 2] by simp
  moreover have "?loop 1 0 = ?loop 2 0" using step [of 1] by simp
  ultimately show ?thesis by (simp only:)
qed

theorem fractional_move_blocked_beyond_target:
  "requireActivePlayer joined4 ''p1'' = Inr 0
   \<and> position (players joined4 ! 0) = Some \<lparr> pos_x = 0, pos_y = 0 \<rparr>
   \<and> ensureTargetValid joined4 (Some (JNum (1 / 2), JNum 0)) = Inr \<lparr> pos_x = 1 / 2, pos_y = 0 \<rparr>
   \<and> isStraightLine \<lparr> pos_x = 0, pos_y = 0 \<rparr> \<lparr> pos_x = 1 / 2, pos_y = 0 \<rparr>
   \<and> distance \<lparr> pos_x = 0, pos_y = 0 \<rparr> \<lparr> pos_x = 1 / 2, pos_y = 0 \<rparr> = 1 / 2
   \<and> pathCells \<lparr> pos_x = 0, pos_y = 0 \<rparr> \<lparr> pos_x = 1 / 2, pos_y = 0 \<rparr> = []
   \<and> \<not> occupiedCell joined4 \<lparr> pos_x = 1 / 2, pos_y = 0 \<rparr>
   \<and> executeMove joined4 ''p1'' (Some (JNum (1 / 2), JNum 0)) = Some (Inl PathBlocked)
   \<and> handleRequestAction joined4 (PlayerClient ''p1'') MOVE (Some (JNum (1 / 2), JNum 0)) ''o1''
       = Some (ACTION_INVALID PathBlocked, joined4)"
proof -
  have who: "requireActivePlayer joined4 ''p1'' = Inr 0"
    by (simp add: requireActivePlayer_def joined4_def demoPlayer_def)
  have here: "position (players joined4 ! 0) = Some \<lparr> pos_x = 0, pos_y = 0 \<rparr>"
    by (simp add: joined4_def demoPlayer_def)
  have tgt: "ensureTargetValid joined4 (Some (JNum (1 / 2), JNum 0))
      = Inr \<lparr> pos_x = 1 / 2, pos_y = 0 \<rparr>"
    by (simp add: ensureTargetValid_def joined4_def)
  have line: "isStraightLine \<lparr> pos_x = 0, pos_y = 0 \<rparr> \<lparr> pos_x = 1 / 2, pos_y = 0 \<rparr>"
    by (simp add: isStraightLine_def)
  have dist: "distance \<lparr> pos_x = 0, pos_y = 0 \<rparr> \<lparr> pos_x = 1 / 2, pos_y = 0 \<rparr> = 1 / 2"
    by (simp add: distance_def)
  have cells: "pathCells \<lparr> pos_x = 0, pos_y = 0 \<rparr> \<lparr> pos_x = 1 / 2, pos_y = 0 \<rparr> = []"
    by (simp add: pathCells_def dist)
  have free: "\<not> occupiedCell joined4 \<lparr> pos_x = 1 / 2, pos_y = 0 \<rparr>"
    by (simp add: occupiedCell_def joined4_def demoPlayer_def)
  have path: "isPathClear joined4 \<lparr> pos_x = 0, pos_y = 0 \<rparr> \<lparr> pos_x = 1 / 2, pos_y = 0 \<rparr>
      = Some (Inr False)"
    by (simp add: isPathClear_def Math_sign_def joined4_scan)
  have move: "executeMove joined4 ''p1'' (Some (JNum (1 / 2), JNum 0)) = Some (Inl PathBlocked)"
    by (simp add: executeMove_def who here tgt line dist path MOVE_RANGE_def)
  have turn: "gameStatus joined4 = InProgress" "currentPlayerTurn joined4 = Some ''p1''"
    by (simp_all add: joined4_def)
  have "handleRequestAction joined4 (PlayerClient ''p1'') MOVE (Some (JNum (1 / 2), JNum 0)) ''o1''
       = Some (ACTION_INVALID PathBlocked, joined4)"
    by (simp add: handleRequestAction_def turn move)
  with who here tgt line dist cells free move show ?thesis by simp
qed

section \<open>Attack resolution\<close>










lemma distinct_map_nth:
  "distinct (map f xs) \<Longrightarrow> i < length xs \<Longrightarrow> j < length xs \<Longrightarrow> f (xs ! i) = f (xs ! j)
     \<Longrightarrow> i = j"
  using nth_eq_iff_index_eq [of "map f xs" i j] by simp















text \<open>
  Claim C3 as stated speaks of every attack whose shared and geometric preconditions
  hold. A target whose coordinates are not integers passes them too, and the scan of
  \<open>findFirstEntity\<close> then steps by whole cells past it, as far as the attack range. In
  \<open>rayOpen\<close> the first player, at \<open>(0, 0)\<close> and holding the turn, attacks the target
  \<open>(0, 0.5)\<close>: the target is in bounds, on a line and at distance \<open>0.5\<close>, no cell lies
  on the ray from the caster to the target, and the attack does not fail with the
  no-target reason: it strikes the obstacle at \<open>(0, 1)\<close>, beyond the target, and
  removes it.
\<close>

lemma afterPlace1_reached:
  "handleRequestAction joined4 (PlayerClient ''p1'') PLACE_OBSTACLE (Some (JNum 0, JNum 1)) ''o1''
     = Some (GAME_STATE_UPDATE, afterPlace1)"
proof -
  have who: "requireActivePlayer joined4 ''p1'' = Inr 0"
    by (simp add: requireActivePlayer_def joined4_def demoPlayer_def)
  have here: "position (players joined4 ! 0) = Some \<lparr> pos_x = 0, pos_y = 0 \<rparr>"
    "obstaclesRestants (players joined4 ! 0) = 3"
    by (simp_all add: joined4_def demoPlayer_def)
  have tgt: "ensureTargetValid joined4 (Some (JNum 0, JNum 1)) = Inr \<lparr> pos_x = 0, pos_y = 1 \<rparr>"
    by (simp add: ensureTargetValid_def joined4_def)
  have free: "isOccupied joined4 \<lparr> pos_x = 0, pos_y = 1 \<rparr> = Inr False"
    by (simp add: isOccupied_def getPlayerAt_def getObstacleAt_def playerAtPred_def
        joined4_def demoPlayer_def)
  have turn: "gameStatus joined4 = InProgress" "currentPlayerTurn joined4 = Some ''p1''"
    by (simp_all add: joined4_def)
  have place: "executePlaceObstacle joined4 ''p1'' (Some (JNum 0, JNum 1)) ''o1'' =
      Inr (advanceTurn (cleanupAfterAction
        (joined4 \<lparr> obstacles := obstacles joined4 @
            [\<lparr> o_id = ''o1'', o_position = \<lparr> pos_x = 0, pos_y = 1 \<rparr>, o_pdv = OBSTACLE_HP,
               ownerId = p_id (players joined4 ! 0) \<rparr>],
          players := (players joined4)[0 := (players joined4 ! 0)
            \<lparr> obstaclesRestants := obstaclesRestants (players joined4 ! 0) - 1 \<rparr>] \<rparr>)))"
    by (simp add: executePlaceObstacle_def who here tgt free isAdjacent_def)
  have "advanceTurn (cleanupAfterAction
        (joined4 \<lparr> obstacles := obstacles joined4 @
            [\<lparr> o_id = ''o1'', o_position = \<lparr> pos_x = 0, pos_y = 1 \<rparr>, o_pdv = OBSTACLE_HP,
               ownerId = p_id (players joined4 ! 0) \<rparr>],
          players := (players joined4)[0 := (players joined4 ! 0)
            \<lparr> obstaclesRestants := obstaclesRestants (players joined4 ! 0) - 1 \<rparr>] \<rparr>))
      = afterPlace1"
    by (simp add: cleanupAfterAction_def advanceTurn_def checkVictory_def markPlayerDefeated_def
        joined4_def afterPlace1_def demoPlayer_def OBSTACLE_HP_def Let_def)
  with place turn show ?thesis
    by (simp add: handleRequestAction_def)
qed

lemma rayOpen_reached: "leave afterPlace1 ''p2'' = rayOpen"
  by (simp add: leave_def handleDisconnect_def removePlayer_def markPlayerDefeated_def
      advanceTurn_def checkVictory_def afterPlace1_def rayOpen_def demoPlayer_def Let_def)


section \<open>Reachable states are well formed\<close>

text \<open>
  Every operation keeps the store well formed, so the hypothesis \<open>wellFormed\<close> of the
  move and attack theorems holds in every state that the handlers can produce.
\<close>

lemma findIndexE_Some: "findIndexE f xs = Inr (Some k) \<Longrightarrow> k < length xs"
proof (induction xs arbitrary: k)
  case Nil
  then show ?case by simp
next
  case (Cons x xs)
  then show ?case
    by (auto split: sum.splits bool.splits)
qed

lemma findFirstEntity_loop_valid:
  "\<forall>st start target dx dy x y h.
      findFirstEntity_loop st start target dx dy x y = Some (Inr (Some h)) \<longrightarrow> validHit st h"
proof (rule findFirstEntity_loop.fixp_induct
    [where P = "\<lambda>f. \<forall>st start target dx dy x y h.
      f st start target dx dy x y = Some (Inr (Some h)) \<longrightarrow> validHit st h"])
  show "option.admissible
     (\<lambda>f :: (((((game \<times> pos) \<times> pos) \<times> rat) \<times> rat) \<times> rat) \<times> rat \<Rightarrow> (error + hit option) option.
        \<forall>st start target dx dy x y h.
          curry (curry (curry (curry (curry (curry f))))) st start target dx dy x y
            = Some (Inr (Some h)) \<longrightarrow> validHit st h)"
  proof -
    have "(\<lambda>f :: (((((game \<times> pos) \<times> pos) \<times> rat) \<times> rat) \<times> rat) \<times> rat \<Rightarrow> (error + hit option) option.
        \<forall>st start target dx dy x y h.
          curry (curry (curry (curry (curry (curry f))))) st start target dx dy x y
            = Some (Inr (Some h)) \<longrightarrow> validHit st h)
       = (\<lambda>f. \<forall>z r. f z = Some r \<longrightarrow>
            (case z of ((((((st, start), target), dx), dy), x), y) \<Rightarrow>
               \<forall>h. r = Inr (Some h) \<longrightarrow> validHit st h))"
      by (rule ext) auto
    then show ?thesis
      by (simp only: option_admissible)
  qed
next
  show "\<forall>st start target dx dy x y h.
      (\<lambda>st start target dx dy x y. None) st start target dx dy x y = Some (Inr (Some h))
        \<longrightarrow> validHit st h"
    by simp
next
  fix loop :: "game \<Rightarrow> pos \<Rightarrow> pos \<Rightarrow> rat \<Rightarrow> rat \<Rightarrow> rat \<Rightarrow> rat \<Rightarrow> (error + hit option) option"
  assume IH: "\<forall>st start target dx dy x y h.
      loop st start target dx dy x y = Some (Inr (Some h)) \<longrightarrow> validHit st h"
  show "\<forall>st start target dx dy x y h.
     (if 0 \<le> x \<and> 0 \<le> y \<and> x < gridSize st \<and> y < gridSize st
          \<and> \<bar>x - pos_x start\<bar> + \<bar>y - pos_y start\<bar> \<le> ATTACK_RANGE
      then if getPlayerAt st \<lparr>pos_x = x, pos_y = y\<rparr> \<noteq> Inr None
           then Some (playerHit (getPlayerAt st \<lparr>pos_x = x, pos_y = y\<rparr>))
           else if getObstacleAt st \<lparr>pos_x = x, pos_y = y\<rparr> \<noteq> None
                then Some (Inr (map_option HitObstacle (getObstacleAt st \<lparr>pos_x = x, pos_y = y\<rparr>)))
                else if x = pos_x target \<and> y = pos_y target then Some (Inr None)
                     else loop st start target dx dy (x + dx) (y + dy)
      else Some (Inr None)) = Some (Inr (Some h)) \<longrightarrow> validHit st h"
  proof (intro allI impI)
    fix st start target dx dy x y h
    assume body: "(if 0 \<le> x \<and> 0 \<le> y \<and> x < gridSize st \<and> y < gridSize st
          \<and> \<bar>x - pos_x start\<bar> + \<bar>y - pos_y start\<bar> \<le> ATTACK_RANGE
      then if getPlayerAt st \<lparr>pos_x = x, pos_y = y\<rparr> \<noteq> Inr None
           then Some (playerHit (getPlayerAt st \<lparr>pos_x = x, pos_y = y\<rparr>))
           else if getObstacleAt st \<lparr>pos_x = x, pos_y = y\<rparr> \<noteq> None
                then Some (Inr (map_option HitObstacle (getObstacleAt st \<lparr>pos_x = x, pos_y = y\<rparr>)))
                else if x = pos_x target \<and> y = pos_y target then Some (Inr None)
                     else loop st start target dx dy (x + dx) (y + dy)
      else Some (Inr None)) = Some (Inr (Some h))"
    consider (player) k where "getPlayerAt st \<lparr>pos_x = x, pos_y = y\<rparr> = Inr (Some k)" "h = HitPlayer k"
      | (obstacle) j where "getObstacleAt st \<lparr>pos_x = x, pos_y = y\<rparr> = Some j" "h = HitObstacle j"
      | (further) "loop st start target dx dy (x + dx) (y + dy) = Some (Inr (Some h))"
      using body
      by (auto simp: playerHit_def split: if_splits sum.splits option.splits)
    then show "validHit st h"
    proof cases
      case player
      then show ?thesis
        by (auto simp: validHit_def getPlayerAt_def dest: findIndexE_Some)
    next
      case obstacle
      then show ?thesis
        by (auto simp: validHit_def getObstacleAt_def dest: findIndex_Some)
    next
      case further
      with IH show ?thesis by blast
    qed
  qed
qed

lemma wellFormed_cong:
  "players s = players t \<Longrightarrow> obstacles s = obstacles t \<Longrightarrow> gridSize s = gridSize t
     \<Longrightarrow> wellFormed s = wellFormed t"
  by (simp add: wellFormed_def inGrid_def)

lemma markPlayerDefeated_ids:
  "map p_id (players (markPlayerDefeated s playerId)) = map p_id (players s)"
  by (auto simp: markPlayerDefeated_def map_update list_update_same_conv
      split: option.splits dest!: findIndex_Some)

lemma markPlayerDefeated_set:
  assumes "p \<in> set (players (markPlayerDefeated s playerId))" and "status p = Active"
  shows "p \<in> set (players s)"
proof (cases "findIndex (\<lambda>p. p_id p = playerId) (players s)")
  case None
  with assms show ?thesis by (simp add: markPlayerDefeated_def)
next
  case (Some k)
  show ?thesis
  proof (cases "status (players s ! k) = Defeated")
    case True
    with Some assms show ?thesis by (simp add: markPlayerDefeated_def)
  next
    case False
    with Some assms(1) have "p \<in> set ((players s)[k := (players s ! k) \<lparr> status := Defeated, position := None \<rparr>])"
      by (simp add: markPlayerDefeated_def)
    then have "p = (players s ! k) \<lparr> status := Defeated, position := None \<rparr> \<or> p \<in> set (players s)"
      using set_update_subset_insert [of "players s" k] by auto
    with assms(2) show ?thesis by auto
  qed
qed

lemma wellFormed_markPlayerDefeated:
  assumes "wellFormed s"
  shows "wellFormed (markPlayerDefeated s playerId)"
  unfolding wellFormed_def
proof (intro conjI ballI impI)
  from assms show "distinct (map p_id (players (markPlayerDefeated s playerId))
      @ map o_id (obstacles (markPlayerDefeated s playerId)))"
    by (simp add: markPlayerDefeated_ids markPlayerDefeated_frame wellFormed_def)
next
  fix p assume p: "p \<in> set (players (markPlayerDefeated s playerId))" "status p = Active"
  then have "p \<in> set (players s)" by (rule markPlayerDefeated_set)
  with assms p(2) have "0 < pdv p \<and> (\<exists>c. position p = Some c \<and> isCell c \<and> inGrid s c)"
    by (simp add: wellFormed_def)
  then show "0 < pdv p" and "\<exists>c. position p = Some c \<and> isCell c
      \<and> inGrid (markPlayerDefeated s playerId) c"
    by (simp_all add: inGrid_def markPlayerDefeated_frame)
qed

lemma wellFormed_defeat_fold:
  "wellFormed s \<Longrightarrow>
     wellFormed (fold (\<lambda>p s. if pdv p \<le> 0 then markPlayerDefeated s (p_id p) else s) ps s)"
  by (induction ps arbitrary: s) (simp_all add: wellFormed_markPlayerDefeated)

lemma distinct_ids_filter:
  assumes "distinct (map p_id ps @ map o_id obs)"
  shows "distinct (map p_id ps @ map o_id (filter P obs))"
  using assms by (auto simp: distinct_map_filter)

lemma wellFormed_filter_obstacles:
  assumes "wellFormed s"
  shows "wellFormed (s \<lparr> obstacles := filter P (obstacles s) \<rparr>)"
  using assms distinct_ids_filter [of "players s" "obstacles s" P]
  by (simp add: wellFormed_def inGrid_def)

lemma wellFormed_checkVictory: "wellFormed (checkVictory s) = wellFormed s"
  by (rule wellFormed_cong) (simp_all add: checkVictory_def Let_def)

lemma wellFormed_advanceTurn: "wellFormed (advanceTurn s) = wellFormed s"
  by (rule wellFormed_cong) (simp_all add: advanceTurn_def checkVictory_def Let_def)

lemma wellFormed_cleanupAfterAction:
  assumes "wellFormed s"
  shows "wellFormed (cleanupAfterAction s)"
  unfolding cleanupAfterAction_def Let_def wellFormed_checkVictory
  by (simp add: wellFormed_defeat_fold wellFormed_filter_obstacles [OF assms])


lemma wellFormed_update_player:
  assumes wf: "wellFormed s"
    and ps: "players t = (players s)[k := q]" and k: "k < length (players s)"
    and id: "p_id q = p_id (players s ! k)"
    and q: "status q = Active \<longrightarrow>
              0 < pdv q \<and> (\<exists>c. position q = Some c \<and> isCell c \<and> inGrid s c)"
    and obs: "obstacles t = obstacles s" and g: "gridSize t = gridSize s"
  shows "wellFormed t"
  unfolding wellFormed_def
proof (intro conjI ballI impI)
  have "map p_id (players t) = map p_id (players s)"
    using k by (simp add: ps id map_update list_update_same_conv)
  with wf show "distinct (map p_id (players t) @ map o_id (obstacles t))"
    by (simp add: obs wellFormed_def)
next
  fix p assume p: "p \<in> set (players t)" "status p = Active"
  from p(1) have "p = q \<or> p \<in> set (players s)"
    unfolding ps using set_update_subset_insert [of "players s" k q] by auto
  with wf q p(2) have "0 < pdv p \<and> (\<exists>c. position p = Some c \<and> isCell c \<and> inGrid s c)"
    by (auto simp: wellFormed_def)
  then show "0 < pdv p" and "\<exists>c. position p = Some c \<and> isCell c \<and> inGrid t c"
    by (simp_all add: inGrid_def g)
qed

lemma ensureTargetValid_inGrid:
  assumes "ensureTargetValid st target = Inr tgt"
  shows "inGrid st tgt"
  using assms
  by (auto simp: ensureTargetValid_def inGrid_def
      split: option.splits prod.splits jsval.splits if_splits)

lemma checkVictory_shape: "gridSize (checkVictory s) = gridSize s"
  by (simp add: checkVictory_def Let_def)

lemma defeat_fold_shape:
  "gridSize (fold (\<lambda>p s. if pdv p \<le> 0 then markPlayerDefeated s (p_id p) else s) ps s)
     = gridSize s"
  by (induction ps arbitrary: s) (simp_all add: markPlayerDefeated_frame)

lemma cleanupAfterAction_shape:
  "gridSize (cleanupAfterAction s) = gridSize s"
  "length (players (cleanupAfterAction s)) = length (players s)"
  by (simp_all add: cleanupAfterAction_def Let_def checkVictory_shape defeat_fold_shape
      checkVictory_frame defeat_fold_frame)

lemma advanceTurn_shape:
  "gridSize (advanceTurn s) = gridSize s"
  by (simp add: advanceTurn_def checkVictory_shape Let_def)

lemma storeInvariant_after:
  assumes "wellFormed s" and "gridSize s \<in> set ALLOWED_GRID_SIZES"
    and "length (players s) \<le> MAX_PLAYERS"
  shows "storeInvariant (advanceTurn (cleanupAfterAction s))"
  using assms
  by (simp add: storeInvariant_def wellFormed_advanceTurn wellFormed_cleanupAfterAction
      advanceTurn_shape advanceTurn_frame cleanupAfterAction_shape)

lemma executeMove_invariant:
  assumes inv: "storeInvariant st" and run: "executeMove st playerId target = Some (Inr st')"
  shows "storeInvariant st'"
proof -
  from inv have wf: "wellFormed st" by (simp add: storeInvariant_def)
  from run obtain i where who: "requireActivePlayer st playerId = Inr i"
    by (cases "requireActivePlayer st playerId") (auto simp: executeMove_def)
  from run who obtain tgt where tgt: "ensureTargetValid st target = Inr tgt"
    by (cases "ensureTargetValid st target") (auto simp: executeMove_def)
  from run who tgt obtain here where here: "position (players st ! i) = Some here"
    by (cases "position (players st ! i)") (auto simp: executeMove_def)
  from run who tgt here have path: "isPathClear st here tgt = Some (Inr True)"
    and st': "st' = advanceTurn (cleanupAfterAction
        (st \<lparr> players := (players st)[i := (players st ! i) \<lparr> position := Some tgt \<rparr>] \<rparr>))"
    by (auto simp: executeMove_def split: if_splits option.splits sum.splits bool.splits)
  from wellFormed_acting [OF wf who here] have "isCell here" "0 < pdv (players st ! i)" by simp_all
  from isPathClear_cell [OF path this(1)] have cell: "isCell tgt" .
  from requireActivePlayer_Inr [OF who] have i: "i < length (players st)" by simp
  have "wellFormed (st \<lparr> players := (players st)[i := (players st ! i) \<lparr> position := Some tgt \<rparr>] \<rparr>)"
    by (rule wellFormed_update_player
        [where q = "(players st ! i) \<lparr> position := Some tgt \<rparr>", OF wf _ i])
      (simp_all add: cell ensureTargetValid_inGrid [OF tgt] \<open>0 < pdv (players st ! i)\<close>)
  with inv show ?thesis
    unfolding st' by (intro storeInvariant_after) (simp_all add: storeInvariant_def)
qed


lemma damagePlayer_zero: "damagePlayer s i 0 = s"
  by (simp add: damagePlayer_def)

lemma findIndex_distinct:
  assumes "distinct (map f xs)" and "k < length xs"
  shows "findIndex (\<lambda>p. f p = f (xs ! k)) xs = Some k"
proof (cases "findIndex (\<lambda>p. f p = f (xs ! k)) xs")
  case None
  with assms(2) show ?thesis by (auto simp: findIndex_None)
next
  case (Some j)
  from findIndex_Some [OF Some] have "j < length xs" "f (xs ! j) = f (xs ! k)" by simp_all
  with assms have "j = k" by (auto dest: distinct_map_nth)
  with Some show ?thesis by simp
qed

lemma wellFormed_damage:
  assumes wf: "wellFormed s" and k: "k < length (players s)"
  shows "wellFormed
     (let t = damagePlayer s k amount
      in if pdv (players t ! k) \<le> 0 then markPlayerDefeated t (p_id (players t ! k)) else t)"
proof -
  define q where "q = (players s ! k) \<lparr> pdv := pdv (players s ! k) - amount \<rparr>"
  define t where "t = damagePlayer s k amount"
  have pt: "players t = (players s)[k := q]" and ot: "obstacles t = obstacles s"
    and gt: "gridSize t = gridSize s"
    by (simp_all add: t_def damagePlayer_def q_def)
  from k have tk: "players t ! k = q" by (simp add: pt)
  have idq: "p_id q = p_id (players s ! k)" by (simp add: q_def)
  from wf have dp: "distinct (map p_id (players s))" by (simp add: wellFormed_def)
  from k have "players s ! k \<in> set (players s)" by simp
  with wf have old: "status (players s ! k) = Active \<longrightarrow>
      (\<exists>c. position (players s ! k) = Some c \<and> isCell c \<and> inGrid s c)"
    by (simp add: wellFormed_def)
  show ?thesis
  proof (cases "pdv q \<le> 0")
    case False
    have "wellFormed t"
      by (rule wellFormed_update_player [OF wf pt k idq _ ot gt])
        (use False old in \<open>simp add: q_def\<close>)
    with False tk show ?thesis by (simp add: t_def [symmetric])
  next
    case True
    have ids: "map p_id (players t) = map p_id (players s)"
      using k by (simp add: pt idq map_update list_update_same_conv)
    with dp have dt: "distinct (map p_id (players t))" by simp
    from k have kt: "k < length (players t)" by (simp add: pt)
    have found: "findIndex (\<lambda>p. p_id p = p_id (players t ! k)) (players t) = Some k"
      by (rule findIndex_distinct [OF dt kt])
    define q' where "q' = (if status q = Defeated then q
        else q \<lparr> status := Defeated, position := None \<rparr>)"
    have m: "players (markPlayerDefeated t (p_id (players t ! k))) = (players s)[k := q']"
      "obstacles (markPlayerDefeated t (p_id (players t ! k))) = obstacles s"
      "gridSize (markPlayerDefeated t (p_id (players t ! k))) = gridSize s"
    proof -
      from k have nth: "(players s)[k := q] ! k = q" by simp
      from found have found': "findIndex (\<lambda>p. p_id p = p_id q) ((players s)[k := q]) = Some k"
        unfolding pt nth .
      show "players (markPlayerDefeated t (p_id (players t ! k))) = (players s)[k := q']"
        "obstacles (markPlayerDefeated t (p_id (players t ! k))) = obstacles s"
        "gridSize (markPlayerDefeated t (p_id (players t ! k))) = gridSize s"
        by (simp_all add: markPlayerDefeated_def tk pt found' nth ot gt q'_def)
    qed
    have "wellFormed (markPlayerDefeated t (p_id (players t ! k)))"
      by (rule wellFormed_update_player [OF wf m(1) k _ _ m(2) m(3)])
        (simp_all add: q'_def idq)
    with True tk show ?thesis by (simp add: t_def [symmetric])
  qed
qed

lemma wellFormed_applyAttack:
  assumes wf: "wellFormed st" and v: "validHit st h"
  shows "wellFormed (applyAttack st i h)"
proof -
  define st2 where "st2 = (if pdv (players st ! i) \<le> 0
      then markPlayerDefeated st (p_id (players st ! i)) else st)"
  have wf2: "wellFormed st2"
    using wf by (simp add: st2_def wellFormed_markPlayerDefeated)
  have len2: "length (players st2) = length (players st)"
    and obs2: "obstacles st2 = obstacles st"
    by (simp_all add: st2_def markPlayerDefeated_frame)
  show ?thesis
  proof (cases h)
    case (HitPlayer k)
    with v len2 have k: "k < length (players st2)" by (simp add: validHit_def)
    have "applyAttack st i h = advanceTurn (cleanupAfterAction
        (let t = damagePlayer st2 k ATTACK_DAMAGE
         in if pdv (players t ! k) \<le> 0 then markPlayerDefeated t (p_id (players t ! k)) else t))"
      by (simp add: applyAttack_def HitPlayer ATTACK_COST_def damagePlayer_zero st2_def Let_def)
    then show ?thesis
      by (simp only: wellFormed_advanceTurn wellFormed_cleanupAfterAction
          wellFormed_damage [OF wf2 k])
  next
    case (HitObstacle j)
    with v obs2 have j: "j < length (obstacles st2)" by (simp add: validHit_def)
    define ob' where "ob' = (obstacles st2 ! j)
        \<lparr> o_pdv := o_pdv (obstacles st2 ! j) - ATTACK_DAMAGE \<rparr>"
    define s where "s = st2 \<lparr> obstacles := (obstacles st2)[j := ob'] \<rparr>"
    have "map o_id (obstacles s) = map o_id (obstacles st2)"
      using j by (simp add: s_def ob'_def map_update list_update_same_conv)
    with wf2 have wfs: "wellFormed s"
      by (simp add: wellFormed_def s_def inGrid_def)
    have "applyAttack st i h = advanceTurn (cleanupAfterAction
        (if o_pdv (obstacles s ! j) \<le> 0
         then s \<lparr> obstacles := filter (\<lambda>ob. o_id ob \<noteq> o_id (obstacles s ! j)) (obstacles s) \<rparr>
         else s))"
      by (simp add: applyAttack_def HitObstacle ATTACK_COST_def damagePlayer_zero st2_def
          s_def ob'_def Let_def)
    then show ?thesis
      by (simp add: wellFormed_advanceTurn wellFormed_cleanupAfterAction
          wellFormed_filter_obstacles [OF wfs] wfs)
  qed
qed

lemma applyAttack_shape:
  "gridSize (applyAttack st i h) = gridSize st
   \<and> length (players (applyAttack st i h)) = length (players st)"
  by (cases h)
    (simp_all add: applyAttack_def Let_def advanceTurn_shape advanceTurn_frame
      cleanupAfterAction_shape markPlayerDefeated_frame damagePlayer_def)

lemma findFirstEntity_valid:
  assumes "findFirstEntity st here tgt = Some (Inr (Some h))"
  shows "validHit st h"
  using assms findFirstEntity_loop_valid
  by (simp add: findFirstEntity_def Let_def)

lemma executeAttack_invariant:
  assumes inv: "storeInvariant st" and run: "executeAttack st playerId target = Some (Inr st')"
  shows "storeInvariant st'"
proof -
  from inv have wf: "wellFormed st" by (simp add: storeInvariant_def)
  from run obtain i where who: "requireActivePlayer st playerId = Inr i"
    by (cases "requireActivePlayer st playerId") (auto simp: executeAttack_def)
  from run who obtain tgt where tgt: "ensureTargetValid st target = Inr tgt"
    by (cases "ensureTargetValid st target") (auto simp: executeAttack_def)
  from run who tgt obtain here where here: "position (players st ! i) = Some here"
    by (cases "position (players st ! i)") (auto simp: executeAttack_def)
  from run who tgt here obtain h where h: "findFirstEntity st here tgt = Some (Inr (Some h))"
    and st': "st' = applyAttack st i h"
    by (auto simp: executeAttack_def split: if_splits option.splits sum.splits)
  from wellFormed_applyAttack [OF wf findFirstEntity_valid [OF h]] inv show ?thesis
    by (simp add: st' storeInvariant_def applyAttack_shape)
qed


lemma executePlaceObstacle_invariant:
  assumes inv: "storeInvariant st" and fresh: "freshId st newId"
    and run: "executePlaceObstacle st playerId target newId = Inr st'"
  shows "storeInvariant st'"
proof -
  from inv have wf: "wellFormed st" by (simp add: storeInvariant_def)
  from run obtain i where who: "requireActivePlayer st playerId = Inr i"
    by (cases "requireActivePlayer st playerId") (auto simp: executePlaceObstacle_def)
  from run who obtain tgt where tgt: "ensureTargetValid st target = Inr tgt"
    by (cases "ensureTargetValid st target") (auto simp: executePlaceObstacle_def)
  define ob where "ob = \<lparr> o_id = newId, o_position = tgt, o_pdv = OBSTACLE_HP,
      ownerId = p_id (players st ! i) \<rparr>"
  define s1 where "s1 = st \<lparr> obstacles := obstacles st @ [ob] \<rparr>"
  define q where "q = (players st ! i)
      \<lparr> obstaclesRestants := obstaclesRestants (players st ! i) - 1 \<rparr>"
  from run who tgt have st': "st' = advanceTurn (cleanupAfterAction
      (s1 \<lparr> players := (players s1)[i := q] \<rparr>))"
    by (auto simp: executePlaceObstacle_def s1_def ob_def q_def
        split: if_splits option.splits sum.splits bool.splits)
  from wf fresh have wf1: "wellFormed s1"
    by (auto simp: wellFormed_def s1_def ob_def freshId_def inGrid_def)
  from requireActivePlayer_Inr [OF who] have i: "i < length (players s1)"
    "players st ! i \<in> set (players st)" by (simp_all add: s1_def)
  with wf have "status (players st ! i) = Active \<longrightarrow>
      0 < pdv (players st ! i)
      \<and> (\<exists>c. position (players st ! i) = Some c \<and> isCell c \<and> inGrid st c)"
    by (simp add: wellFormed_def)
  then have "wellFormed (s1 \<lparr> players := (players s1)[i := q] \<rparr>)"
    by (intro wellFormed_update_player [OF wf1 _ i(1), where q = q])
      (simp_all add: q_def s1_def inGrid_def)
  with inv show ?thesis
    unfolding st' by (intro storeInvariant_after) (simp_all add: storeInvariant_def s1_def)
qed

lemma storeInvariant_initial:
  "g \<in> set ALLOWED_GRID_SIZES \<Longrightarrow> storeInvariant (createInitialState g)"
  by (simp add: storeInvariant_def wellFormed_def createInitialState_def)

lemma startingPositionAt_cell:
  assumes "gridSize st \<in> set ALLOWED_GRID_SIZES" and "idx < MAX_PLAYERS"
  shows "\<exists>c. startingPositionAt st idx = Some c \<and> isCell c \<and> inGrid st c"
proof -
  from assms(1) have g: "gridSize st = 9" by (simp add: ALLOWED_GRID_SIZES_def)
  from assms(2) have "idx = 0 \<or> idx = 1 \<or> idx = 2 \<or> idx = 3"
    by (auto simp: MAX_PLAYERS_def)
  then show ?thesis
    by (auto simp: startingPositionAt_def getStartingPositions_def g isCell_def inGrid_def)
qed

lemma addPlayer_invariant:
  assumes inv: "storeInvariant st" and fresh: "freshId st newId"
    and run: "addPlayer st pseudoArg color gridSizeOverride userIdArg newId = Inr (p, st')"
  shows "storeInvariant st'"
proof -
  define st1 where "st1 = (case gridSizeOverride of
      None \<Rightarrow> st | Some g \<Rightarrow> if g \<noteq> 0 then setGridSizeIfLobby st g else st)"
  have same: "players st1 = players st" "obstacles st1 = obstacles st"
    by (simp_all add: st1_def setGridSizeIfLobby_def split: option.splits)
  from inv have g1: "gridSize st1 \<in> set ALLOWED_GRID_SIZES"
    by (auto simp: st1_def setGridSizeIfLobby_def storeInvariant_def split: option.splits)
  from inv have wf1: "wellFormed st1"
    by (auto simp: st1_def setGridSizeIfLobby_def storeInvariant_def wellFormed_def
        split: option.splits)
  from run have room: "length (players st) < MAX_PLAYERS"
    by (auto simp: addPlayer_def split: if_splits)
  define q where "q = \<lparr> p_id = newId, userId = userId p, pseudo = pseudo p,
      couleur = couleur p, pdv = PLAYER_HP,
      position = startingPositionAt st1 (length (players st1)),
      obstaclesRestants = OBSTACLE_STOCK, status = Active \<rparr>"
  from run have ps: "players st' = players st1 @ [q]" and obs: "obstacles st' = obstacles st1"
    and g: "gridSize st' = gridSize st1"
    by (auto simp: addPlayer_def st1_def [symmetric] q_def Let_def
        split: if_splits option.splits)
  from startingPositionAt_cell [OF g1, of "length (players st1)"] room
  obtain c where c: "position q = Some c" "isCell c" "inGrid st1 c"
    by (auto simp: q_def same)
  have "wellFormed st'"
    unfolding wellFormed_def
  proof (intro conjI ballI impI)
    from wf1 fresh show "distinct (map p_id (players st') @ map o_id (obstacles st'))"
      by (auto simp: ps obs wellFormed_def freshId_def same q_def)
  next
    fix r assume r: "r \<in> set (players st')" "status r = Active"
    then have "r = q \<or> r \<in> set (players st1)" by (auto simp: ps)
    with wf1 r(2) c have "0 < pdv r \<and> (\<exists>c. position r = Some c \<and> isCell c \<and> inGrid st1 c)"
      by (auto simp: wellFormed_def q_def PLAYER_HP_def)
    then show "0 < pdv r" and "\<exists>c. position r = Some c \<and> isCell c \<and> inGrid st' c"
      by (simp_all add: inGrid_def g)
  qed
  with g1 room show ?thesis
    by (simp add: storeInvariant_def g ps same)
qed

lemma handleJoin_invariant:
  assumes "storeInvariant st" and "freshId st newId"
  shows "storeInvariant (snd (handleJoin st meta pseudoArg color gridSizeArg userIdArg newId))"
proof (cases "addPlayer st pseudoArg color (parseGridSize gridSizeArg) userIdArg newId")
  case (Inl e)
  with assms(1) show ?thesis
    by (simp add: handleJoin_def split: clientMeta.splits)
next
  case (Inr r)
  obtain p st' where r: "r = (p, st')" by (cases r)
  from addPlayer_invariant [OF assms Inr [unfolded r]] assms(1) Inr r show ?thesis
    by (simp add: handleJoin_def split: clientMeta.splits)
qed

lemma handleRequestAction_invariant:
  assumes inv: "storeInvariant st" and fresh: "freshId st newId"
    and run: "handleRequestAction st meta kind target newId = Some (r, st')"
  shows "storeInvariant st'"
proof (cases "r = GAME_STATE_UPDATE")
  case False
  with run inv show ?thesis
    by (auto simp: handleRequestAction_def
        split: clientMeta.splits if_splits option.splits sum.splits)
next
  case True
  with run obtain playerId where
    "(kind = MOVE \<and> executeMove st playerId target = Some (Inr st'))
     \<or> (kind = ATTACK \<and> executeAttack st playerId target = Some (Inr st'))
     \<or> (kind = PLACE_OBSTACLE \<and> executePlaceObstacle st playerId target newId = Inr st')"
    by (cases kind)
      (auto simp: handleRequestAction_def
        split: clientMeta.splits if_splits option.splits sum.splits)
  then show ?thesis
    using executeMove_invariant [OF inv] executeAttack_invariant [OF inv]
      executePlaceObstacle_invariant [OF inv fresh]
    by blast
qed

lemma handleResetGame_invariant:
  assumes "storeInvariant st"
  shows "storeInvariant (snd (handleResetGame st))"
proof (cases "gameStatus st = Finished")
  case False
  with assms show ?thesis by (simp add: handleResetGame_def)
next
  case True
  from assms have "gridSize st \<in> set ALLOWED_GRID_SIZES" by (simp add: storeInvariant_def)
  then have "(if gridSize st \<noteq> 0 then gridSize st else ALLOWED_GRID_SIZES ! 0)
      \<in> set ALLOWED_GRID_SIZES"
    by (simp add: ALLOWED_GRID_SIZES_def)
  with True show ?thesis
    by (simp add: handleResetGame_def resetGame_def storeInvariant_initial)
qed


lemma splice_subset: "set (take k xs @ drop (Suc k) xs) \<subseteq> set xs"
proof (induction xs arbitrary: k)
  case Nil
  show ?case by simp
next
  case (Cons x xs)
  show ?case
  proof (cases k)
    case 0
    then show ?thesis by auto
  next
    case (Suc j)
    with Cons [of j] show ?thesis by auto
  qed
qed

lemma splice_distinct:
  "distinct (map f xs) \<Longrightarrow> distinct (map f (take k xs @ drop (Suc k) xs))"
proof (induction xs arbitrary: k)
  case Nil
  show ?case by simp
next
  case (Cons x xs)
  show ?case
  proof (cases k)
    case 0
    with Cons.prems show ?thesis by simp
  next
    case (Suc j)
    from Cons.prems have "f x \<notin> f ` set xs" and d: "distinct (map f xs)" by simp_all
    with splice_subset [of j xs] have "f x \<notin> f ` set (take j xs @ drop (Suc j) xs)" by blast
    with Cons.IH [OF d, of j] Suc show ?thesis by auto
  qed
qed

lemma wellFormed_splice:
  assumes "wellFormed st"
  shows "wellFormed (st \<lparr> players := take k (players st) @ drop (Suc k) (players st) \<rparr>)"
proof -
  define qs where "qs = take k (players st) @ drop (Suc k) (players st)"
  have sub: "set qs \<subseteq> set (players st)" unfolding qs_def by (rule splice_subset)
  from assms have "distinct (map p_id (players st))" by (simp add: wellFormed_def)
  then have d: "distinct (map p_id qs)" unfolding qs_def by (rule splice_distinct)
  from assms sub have "set (map p_id qs) \<inter> set (map o_id (obstacles st)) = {}"
    by (auto simp: wellFormed_def)
  with assms d have "distinct (map p_id qs @ map o_id (obstacles st))"
    by (simp add: wellFormed_def)
  moreover from assms sub have "\<forall>p \<in> set qs. status p = Active \<longrightarrow>
      0 < pdv p \<and> (\<exists>c. position p = Some c \<and> isCell c \<and> inGrid st c)"
    by (auto simp: wellFormed_def)
  ultimately show ?thesis
    by (simp add: wellFormed_def inGrid_def qs_def)
qed

lemma removePlayer_invariant:
  assumes inv: "storeInvariant st"
  shows "storeInvariant (removePlayer st playerId)"
proof (cases "findIndex (\<lambda>p. p_id p = playerId) (players st)")
  case None
  with inv show ?thesis by (simp add: removePlayer_def)
next
  case (Some k)
  define st1 where "st1 = st \<lparr> players := take k (players st) @ drop (Suc k) (players st) \<rparr>"
  from findIndex_Some [OF Some] have k: "k < length (players st)" by simp
  from inv have wf1: "wellFormed st1"
    unfolding st1_def by (intro wellFormed_splice) (simp add: storeInvariant_def)
  from inv have g1: "gridSize st1 \<in> set ALLOWED_GRID_SIZES"
    by (simp add: st1_def storeInvariant_def)
  from inv k have n1: "length (players st1) < MAX_PLAYERS"
    by (auto simp: st1_def storeInvariant_def)
  have inv1: "storeInvariant st1"
    using wf1 g1 n1 by (simp add: storeInvariant_def)
  have a: "storeInvariant (createInitialState (gridSize st1))"
    using g1 by (rule storeInvariant_initial)
  have b: "storeInvariant (checkVictory (advanceTurn (markPlayerDefeated st1 pid)))" for pid
    using wf1 g1 n1
    by (simp add: storeInvariant_def wellFormed_checkVictory wellFormed_advanceTurn
        wellFormed_markPlayerDefeated checkVictory_shape advanceTurn_shape
        checkVictory_frame advanceTurn_frame markPlayerDefeated_frame)
  define ps where "ps = map (\<lambda>(p, idx). p \<lparr> position := startingPositionAt st1 idx \<rparr>)
      (zip (players st1) [0 ..< length (players st1)])"
  have len: "length ps = length (players st1)" by (simp add: ps_def)
  have ids: "map p_id ps = map p_id (players st1)"
    by (rule nth_equalityI) (simp_all add: ps_def)
  have "wellFormed (st1 \<lparr> players := ps \<rparr>)"
    unfolding wellFormed_def
  proof (intro conjI ballI impI)
    from wf1 show "distinct (map p_id (players (st1 \<lparr> players := ps \<rparr>))
        @ map o_id (obstacles (st1 \<lparr> players := ps \<rparr>)))"
      by (simp add: ids wellFormed_def)
  next
    fix r assume r: "r \<in> set (players (st1 \<lparr> players := ps \<rparr>))" "status r = Active"
    then obtain j where j: "j < length (players st1)"
        "r = (players st1 ! j) \<lparr> position := startingPositionAt st1 j \<rparr>"
      by (auto simp: ps_def in_set_conv_nth)
    from j(1) n1 have "j < MAX_PLAYERS" by simp
    from startingPositionAt_cell [OF g1 this]
    obtain c where c: "startingPositionAt st1 j = Some c" "isCell c" "inGrid st1 c" by blast
    from j r(2) have "players st1 ! j \<in> set (players st1)" "status (players st1 ! j) = Active"
      by simp_all
    with wf1 have "0 < pdv (players st1 ! j)" by (simp add: wellFormed_def)
    with j(2) c show "0 < pdv r"
      and "\<exists>c. position r = Some c \<and> isCell c \<and> inGrid (st1 \<lparr> players := ps \<rparr>) c"
      by (simp_all add: inGrid_def)
  qed
  with g1 n1 have c: "storeInvariant (st1 \<lparr> players := ps \<rparr>)"
    by (simp add: storeInvariant_def len)
  have "removePlayer st playerId =
      (if length (players st1) = 0 then createInitialState (gridSize st1)
       else if status (players st ! k) = Active \<and> gameStatus st1 = InProgress
       then checkVictory (advanceTurn (markPlayerDefeated st1 (p_id (players st ! k))))
       else if gameStatus st1 = Lobby then st1 \<lparr> players := ps \<rparr> else st1)"
    unfolding removePlayer_def Some st1_def ps_def by (simp only: option.case Let_def)
  with a b c inv1 show ?thesis by simp
qed

lemma handleDisconnect_invariant:
  "storeInvariant st \<Longrightarrow> storeInvariant (handleDisconnect st meta)"
  by (cases meta) (simp_all add: handleDisconnect_def removePlayer_invariant)

lemma reachable_invariant:
  "reachable st \<Longrightarrow> storeInvariant st"
proof (induction rule: reachable.induct)
  case start
  show ?case by (rule storeInvariant_initial) (simp add: ALLOWED_GRID_SIZES_def)
next
  case (joined st newId meta pseudoArg color gridSizeArg userIdArg)
  then show ?case by (simp add: handleJoin_invariant)
next
  case (acted st newId meta kind target r st')
  then show ?case by (blast intro: handleRequestAction_invariant)
next
  case (reset st)
  then show ?case by (simp add: handleResetGame_invariant)
next
  case (left st meta)
  then show ?case by (simp add: handleDisconnect_invariant)
qed

lemma reachable_wellFormed: "reachable st \<Longrightarrow> wellFormed st"
  by (drule reachable_invariant) (simp add: storeInvariant_def)


lemma reachable_join: "reachable st \<Longrightarrow> freshId st newId \<Longrightarrow> reachable (join st newId)"
  unfolding join_def by (rule reachable.joined)

lemma reachable_leave: "reachable st \<Longrightarrow> reachable (leave st playerId)"
  unfolding leave_def by (rule reachable.left)

lemma joined4_reachable: "reachable joined4"
proof -
  let ?s0 = "createInitialState 9"
  have 0: "reachable ?s0"
    using reachable.start by (simp add: ALLOWED_GRID_SIZES_def)
  have 1: "reachable (join ?s0 ''p1'')"
    by (rule reachable_join [OF 0]) (simp add: freshId_def createInitialState_def)
  have 2: "reachable (join (join ?s0 ''p1'') ''p2'')"
    by (rule reachable_join [OF 1]) (simp add: freshId_def join_defs Let_def)
  have 3: "reachable (join (join (join ?s0 ''p1'') ''p2'') ''p3'')"
    by (rule reachable_join [OF 2]) (simp add: freshId_def join_defs Let_def)
  have "reachable (join (join (join (join ?s0 ''p1'') ''p2'') ''p3'') ''p4'')"
    by (rule reachable_join [OF 3]) (simp add: freshId_def join_defs Let_def)
  then show ?thesis by (simp only: joined4_reached)
qed

lemma afterMove1_reachable: "reachable afterMove1"
  by (rule reachable.acted [OF joined4_reachable _ afterMove1_reached])
    (simp add: freshId_def joined4_def demoPlayer_def)

lemma stale_turn_reachable:
  "reachable (leave (leave (leave joined4 ''p1'') ''p2'') ''p3'')"
  by (intro reachable_leave joined4_reachable)

lemma rayOpen_reachable: "reachable rayOpen"
proof -
  have "reachable afterPlace1"
    by (rule reachable.acted [OF joined4_reachable _ afterPlace1_reached])
      (simp add: freshId_def joined4_def demoPlayer_def)
  then have "reachable (leave afterPlace1 ''p2'')" by (rule reachable_leave)
  then show ?thesis by (simp only: rayOpen_reached)
qed

end
